theory Spec2Isabelle
  imports Complex_Main "HOL-Library.Word"
begin

section \<open>JavaScript strings\<close>

text \<open>
  A JavaScript string is a sequence of UTF-16 code units. Every string operation of the
  chat component (\<open>trim\<close>, \<open>split\<close>, \<open>replace\<close>, \<open>match\<close>, and regular
  expressions without the \<open>u\<close> flag) works on code units, never on code points.
\<close>

type_synonym cu = "16 word"
type_synonym jsstring = "cu list"

text \<open>A source literal made of ASCII characters only, as code units.\<close>

definition asc :: "string \<Rightarrow> jsstring" where
  "asc s = map (\<lambda>c. of_nat (of_char c)) s"

text \<open>
  \<open>WhiteSpace\<close> and \<open>LineTerminator\<close> of ECMAScript: what \<open>String.prototype.trim\<close>
  strips and what \<open>\s\<close> matches in a regular expression.
\<close>

definition is_ws :: "cu \<Rightarrow> bool" where
  "is_ws c \<longleftrightarrow> c \<in> set [0x0009, 0x000A, 0x000B, 0x000C, 0x000D, 0x0020, 0x00A0, 0x1680,
     0x2000, 0x2001, 0x2002, 0x2003, 0x2004, 0x2005, 0x2006, 0x2007, 0x2008, 0x2009, 0x200A,
     0x2028, 0x2029, 0x202F, 0x205F, 0x3000, 0xFEFF]"

definition trim :: "jsstring \<Rightarrow> jsstring" where
  "trim s = rev (dropWhile is_ws (rev (dropWhile is_ws s)))"

text \<open>
  \<open>s.split(sep)\<close> for a separator string of one code unit (both separators of the
  component, the line feed and the bullet U+2022, are): the pieces between the
  occurrences, the empty string giving one empty piece.
\<close>

fun split_on :: "cu \<Rightarrow> jsstring \<Rightarrow> jsstring list" where
  "split_on sep [] = [[]]"
| "split_on sep (c # cs) =
     (if c = sep then [] # split_on sep cs
      else (case split_on sep cs of p # ps \<Rightarrow> (c # p) # ps | [] \<Rightarrow> [[c]]))"

text \<open>\<open>pieces.join(sep)\<close> for a separator of one code unit.\<close>

fun join_with :: "cu \<Rightarrow> jsstring list \<Rightarrow> jsstring" where
  "join_with sep [] = []"
| "join_with sep [p] = p"
| "join_with sep (p # q # ps) = p @ sep # join_with sep (q # ps)"

section \<open>Regular expressions\<close>

text \<open>
  The fragment of ECMAScript regular expressions that the component's three patterns
  are written in, without flags: a literal code unit, character classes over code
  units (with the escapes \<open>\s\<close> and \<open>\S\<close>), sequence, alternative, greedy and lazy
  star, positive lookahead.
\<close>

datatype citem = Unit cu | Space | NonSpace

fun citem_has :: "citem \<Rightarrow> cu \<Rightarrow> bool" where
  "citem_has (Unit u) c = (c = u)"
| "citem_has Space c = is_ws c"
| "citem_has NonSpace c = (\<not> is_ws c)"

datatype re =
    Chr cu
  | OneOf "citem list"
  | NoneOf "citem list"
  | Seq re re
  | Alt re re
  | Star re
  | LazyStar re
  | Ahead re

text \<open>
  Backtracking semantics: \<open>rests r s\<close> lists, in the order the matcher tries them, the
  remainders of \<open>s\<close> after each way of matching \<open>r\<close> at the head of \<open>s\<close>. The first
  element is the match that is taken. An iteration of a star that consumes nothing is
  rejected, as the language prescribes.
\<close>

function rests :: "re \<Rightarrow> jsstring \<Rightarrow> jsstring list" where
  "rests (Chr u) s = (case s of [] \<Rightarrow> [] | c # cs \<Rightarrow> if c = u then [cs] else [])"
| "rests (OneOf items) s =
     (case s of [] \<Rightarrow> [] | c # cs \<Rightarrow> if \<exists>i \<in> set items. citem_has i c then [cs] else [])"
| "rests (NoneOf items) s =
     (case s of [] \<Rightarrow> [] | c # cs \<Rightarrow> if \<exists>i \<in> set items. citem_has i c then [] else [cs])"
| "rests (Seq a b) s = concat (map (rests b) (rests a s))"
| "rests (Alt a b) s = rests a s @ rests b s"
| "rests (Star a) s =
     concat (map (\<lambda>t. if length t < length s then rests (Star a) t else []) (rests a s)) @ [s]"
| "rests (LazyStar a) s =
     s # concat (map (\<lambda>t. if length t < length s then rests (LazyStar a) t else []) (rests a s))"
| "rests (Ahead a) s = (if rests a s = [] then [] else [s])"
  by pat_completeness auto
termination
  by (relation "measures [\<lambda>(r, s). size r, \<lambda>(r, s). length s]") auto

declare rests.simps [simp del]

text \<open>
  The search of \<open>RegExp.prototype.exec\<close> on a pattern without flags: the start
  positions are tried from left to right, the end of the text included. The result is
  the matched text and what follows it.
\<close>

fun search :: "re \<Rightarrow> jsstring \<Rightarrow> (jsstring \<times> jsstring) option" where
  "search r [] = (case rests r [] of [] \<Rightarrow> None | t # _ \<Rightarrow> Some ([], t))"
| "search r (c # cs) =
     (case rests r (c # cs) of
        [] \<Rightarrow> search r cs
      | t # _ \<Rightarrow> Some (take (length (c # cs) - length t) (c # cs), t))"

text \<open>
  A pattern \<open>^pre(grp)\<close>: anchored at the start of the text (without the \<open>m\<close> flag
  no later start position can match), \<open>pre\<close> followed by the capture group \<open>grp\<close>.
  The result is the text captured by the group and what follows the match.
\<close>

definition match_anchored_group :: "re \<Rightarrow> re \<Rightarrow> jsstring \<Rightarrow> (jsstring \<times> jsstring) option" where
  "match_anchored_group pre grp s =
     (case concat (map (\<lambda>t. map (\<lambda>u. (take (length t - length u) t, u)) (rests grp t)) (rests pre s)) of
        [] \<Rightarrow> None
      | m # _ \<Rightarrow> Some m)"

text \<open>
  \<open>s.split(r)\<close> for a pattern without capture groups, after
  \<open>RegExp.prototype[Symbol.split]\<close>: \<open>p\<close> is where the current piece starts, \<open>q\<close>
  the position where a match is tried, \<open>e\<close> the end of a match found at \<open>q\<close>. A match
  that ends where the current piece starts is passed over.
\<close>

function split_loop :: "re \<Rightarrow> jsstring \<Rightarrow> nat \<Rightarrow> nat \<Rightarrow> jsstring list" where
  "split_loop r s p q =
     (if length s \<le> q then [drop p s]
      else (case rests r (drop q s) of
              [] \<Rightarrow> split_loop r s p (q + 1)
            | t # _ \<Rightarrow>
                (let e = min (length s - length t) (length s) in
                   if e = p then split_loop r s p (q + 1)
                   else take (q - p) (drop p s) # split_loop r s e e)))"
  by pat_completeness auto
termination
  apply (relation "measures [\<lambda>(r, s, p, q). length s - q, \<lambda>(r, s, p, q). if p = q then 0 else 1]")
  subgoal by simp
  subgoal by auto
  subgoal by auto
  subgoal premises prems for r s p q t ts e
  proof -
    have suffix: "u \<in> set (rests r' s') \<Longrightarrow> length u \<le> length s'" for r' s' u
    proof (induction r' s' arbitrary: u rule: rests.induct)
      case (1 c s)
      then show ?case by (cases s) (simp_all add: rests.simps(1-3) split: if_splits)
    next
      case (2 items s)
      then show ?case by (cases s) (simp_all add: rests.simps(1-3) split: if_splits)
    next
      case (3 items s)
      then show ?case by (cases s) (simp_all add: rests.simps(1-3) split: if_splits)
    next
      case (4 a b s)
      from 4(3) obtain x where x: "x \<in> set (rests a s)" "u \<in> set (rests b x)"
        by (auto simp: rests.simps(4))
      have "length u \<le> length x"
        using 4(2) x by blast
      moreover have "length x \<le> length s"
        using 4(1) x by blast
      ultimately show ?case by simp
    next
      case (5 a b s)
      then show ?case by (auto simp: rests.simps(5))
    next
      case (6 a s)
      from 6(3) have "u \<in> set (concat (map (\<lambda>t. if length t < length s then rests (Star a) t else [])
          (rests a s)) @ [s])"
        by (simp only: rests.simps(6) [of a s])
      then consider "u = s"
        | x where "x \<in> set (rests a s)" "length x < length s" "u \<in> set (rests (Star a) x)"
        by (auto split: if_splits)
      then show ?case
      proof cases
        case 1
        then show ?thesis by simp
      next
        case 2
        from 2 have "length u \<le> length x"
          by (rule 6(2))
        with 2(2) show ?thesis by simp
      qed
    next
      case (7 a s)
      from 7(3) have "u \<in> set (s # concat (map (\<lambda>t. if length t < length s then rests (LazyStar a) t else [])
          (rests a s)))"
        by (simp only: rests.simps(7) [of a s])
      then consider "u = s"
        | x where "x \<in> set (rests a s)" "length x < length s" "u \<in> set (rests (LazyStar a) x)"
        by (auto split: if_splits)
      then show ?case
      proof cases
        case 1
        then show ?thesis by simp
      next
        case 2
        from 2 have "length u \<le> length x"
          by (rule 7(2))
        with 2(2) show ?thesis by simp
      qed
    next
      case (8 a s)
      then show ?case by (simp add: rests.simps(8) split: if_splits)
    qed

    have "t \<in> set (rests r (drop q s))"
      using prems by simp
    then have "length t \<le> length s - q"
      using suffix [of t r "drop q s"] by simp
    show ?thesis
      using prems \<open>length t \<le> length s - q\<close> by auto
  qed
  done

declare split_loop.simps [simp del]

definition split_re :: "re \<Rightarrow> jsstring \<Rightarrow> jsstring list" where
  "split_re r s =
     (if s = [] then (if rests r [] = [] then [[]] else []) else split_loop r s 0 0)"

section \<open>The response parser: narrative sections\<close>

text \<open>
  The character class of the two header patterns, \<open>[...]\<close> holding the emojis woman
  (U+1F469), skin tone (U+1F3FC), zero width joiner (U+200D), microscope (U+1F52C),
  star (U+1F31F), sparkles (U+2728) and dizzy (U+1F4AB). The patterns carry no \<open>u\<close>
  flag, so the class holds the UTF-16 code units of its source text, one by one.
\<close>

definition markerClass :: "citem list" where
  "markerClass = map Unit
     [0xD83D, 0xDC69, 0xD83C, 0xDFFC, 0x200D, 0xD83D, 0xDD2C, 0xD83C, 0xDF1F, 0x2728,
      0xD83D, 0xDCAB]"

text \<open>\<open>## [...]\<close>: number sign, number sign, space, one code unit of the class.\<close>

definition headerRe :: re where
  "headerRe = Seq (Chr 0x23) (Seq (Chr 0x23) (Seq (Chr 0x20) (OneOf markerClass)))"

text \<open>\<open>text.replace(/^[\s\S]*?(## [...])/, '$1')\<close>: a text that does not match is returned as it is.\<close>

definition strip_leading :: "jsstring \<Rightarrow> jsstring" where
  "strip_leading text =
     (case match_anchored_group (LazyStar (OneOf [Space, NonSpace])) headerRe text of
        None \<Rightarrow> text
      | Some (g1, after) \<Rightarrow> g1 @ after)"

definition lf :: cu where
  "lf = 0x000A"

definition bullet :: cu where
  "bullet = 0x2022"

record ParsedSection =
  title :: jsstring
  bullets :: "jsstring list"

text \<open>
  The body of the \<open>map\<close> callback of \<open>formatResponseText\<close>: \<open>null\<close> for a blank
  section, otherwise the heading (\<open>title.trim()\<close>) and the list items that the
  element shows; \<open>ttl\<close> and \<open>cnt\<close> are the source's \<open>title\<close> and \<open>content\<close>.
  \<open>split\<close> never returns an empty array, so the destructuring always finds a title.
\<close>

definition format_section :: "jsstring \<Rightarrow> ParsedSection option" where
  "format_section section =
     (if trim section = [] then None
      else (case split_on lf section of
              [] \<Rightarrow> None
            | ttl # cnt \<Rightarrow>
                Some \<lparr>title = trim ttl,
                      bullets = map trim (filter (\<lambda>point. trim point \<noteq> [])
                                  (split_on bullet (join_with lf cnt)))\<rparr>))"

definition formatResponseText :: "jsstring \<Rightarrow> ParsedSection option list" where
  "formatResponseText text =
     (let cleanedText = trim (strip_leading text);
          sections = split_re (Ahead headerRe) cleanedText
      in map format_section sections)"

text \<open>What the page shows of the array: React renders nothing for a \<open>null\<close> element.\<close>

definition rendered :: "ParsedSection option list \<Rightarrow> ParsedSection list" where
  "rendered elems = concat (map (\<lambda>e. case e of None \<Rightarrow> [] | Some x \<Rightarrow> [x]) elems)"

section \<open>JSON values\<close>

text \<open>
  The values a JavaScript variable of the component can hold: \<open>undefined\<close> and what
  \<open>JSON.parse\<close> builds. A number is kept as the exact value of its literal. An
  object is the list of its properties in the order they were written; a later
  property of the same name overrides an earlier one.
\<close>

datatype jsvalue =
    JUndefined
  | JNull
  | JBool bool
  | JNumber rat
  | JString jsstring
  | JArray "jsvalue list"
  | JObject "(jsstring \<times> jsvalue) list"

datatype js_error = SyntaxError | TypeError

text \<open>
  \<open>ToBoolean\<close>: \<open>undefined\<close>, \<open>null\<close>, \<open>false\<close>, a zero and the empty string are
  falsy; arrays and objects, empty ones too, are truthy. A number literal denotes a zero
  when it rounds to one in double precision, that is when its magnitude is at most
  half the least positive double \<open>2^-1074\<close>.
\<close>

fun truthy :: "jsvalue \<Rightarrow> bool" where
  "truthy JUndefined = False"
| "truthy JNull = False"
| "truthy (JBool b) = b"
| "truthy (JNumber q) = (1 / 2 ^ 1075 < \<bar>q\<bar>)"
| "truthy (JString s) = (s \<noteq> [])"
| "truthy (JArray vs) = True"
| "truthy (JObject kvs) = True"

text \<open>\<open>a || b\<close>\<close>

definition js_or :: "jsvalue \<Rightarrow> jsvalue \<Rightarrow> jsvalue" where
  "js_or a b = (if truthy a then a else b)"

text \<open>
  \<open>value.key\<close> for the property names the component reads (\<open>text\<close> and the nine
  product fields), none of which a prototype defines: reading a property of
  \<open>undefined\<close> or \<open>null\<close> throws a \<open>TypeError\<close>, an object gives its own property,
  and everything else gives \<open>undefined\<close>.
\<close>

fun get_prop :: "jsvalue \<Rightarrow> jsstring \<Rightarrow> js_error + jsvalue" where
  "get_prop JUndefined k = Inl TypeError"
| "get_prop JNull k = Inl TypeError"
| "get_prop (JObject kvs) k = Inr (case map_of (rev kvs) k of None \<Rightarrow> JUndefined | Some v \<Rightarrow> v)"
| "get_prop v k = Inr JUndefined"

text \<open>Sequencing of computations that may throw.\<close>

definition then_do :: "js_error + 'a \<Rightarrow> ('a \<Rightarrow> js_error + 'b) \<Rightarrow> js_error + 'b" where
  "then_do m f = (case m of Inl e \<Rightarrow> Inl e | Inr x \<Rightarrow> f x)"

section \<open>JSON.parse\<close>

text \<open>
  \<open>JSON.parse\<close> belongs to the JavaScript runtime. It is modelled after the JSON
  grammar of ECMA-404, which ECMAScript prescribes for it: a lexer, then a parser with
  an explicit stack of the open arrays and objects.
\<close>

datatype token =
    TLBrace | TRBrace | TLBracket | TRBracket | TColon | TComma
  | TString jsstring | TNumber rat | TTrue | TFalse | TNull

text \<open>JSON white space: tab, line feed, carriage return, space.\<close>

definition json_ws :: "cu \<Rightarrow> bool" where
  "json_ws c \<longleftrightarrow> c = 0x09 \<or> c = 0x0A \<or> c = 0x0D \<or> c = 0x20"

definition is_digit :: "cu \<Rightarrow> bool" where
  "is_digit c \<longleftrightarrow> 0x30 \<le> c \<and> c \<le> 0x39"

definition hexval :: "cu \<Rightarrow> nat option" where
  "hexval c =
     (if 0x30 \<le> c \<and> c \<le> 0x39 then Some (unat c - 0x30)
      else if 0x41 \<le> c \<and> c \<le> 0x46 then Some (unat c - 0x41 + 10)
      else if 0x61 \<le> c \<and> c \<le> 0x66 then Some (unat c - 0x61 + 10)
      else None)"

text \<open>The code unit a one-letter escape \<open>\"\<close>, \<open>\\\<close>, \<open>\/\<close>, \<open>\b\<close>, \<open>\f\<close>, \<open>\n\<close>, \<open>\r\<close>, \<open>\t\<close> stands for.\<close>

definition escape :: "cu \<Rightarrow> cu option" where
  "escape e =
     (if e = 0x22 then Some 0x22
      else if e = 0x5C then Some 0x5C
      else if e = 0x2F then Some 0x2F
      else if e = 0x62 then Some 0x08
      else if e = 0x66 then Some 0x0C
      else if e = 0x6E then Some 0x0A
      else if e = 0x72 then Some 0x0D
      else if e = 0x74 then Some 0x09
      else None)"

text \<open>The code unit that the four hexadecimal digits of a \<open>\u\<close> escape denote.\<close>

definition hex4 :: "cu \<Rightarrow> cu \<Rightarrow> cu \<Rightarrow> cu \<Rightarrow> cu option" where
  "hex4 h1 h2 h3 h4 =
     (case (hexval h1, hexval h2, hexval h3, hexval h4) of
        (Some a, Some b, Some c, Some d) \<Rightarrow> Some (of_nat (((a * 16 + b) * 16 + c) * 16 + d))
      | _ \<Rightarrow> None)"

text \<open>
  The rest of a string literal after its opening quote: the string denoted and the text
  after the closing quote. Control characters below U+0020 may not occur unescaped.
\<close>

fun lex_string :: "jsstring \<Rightarrow> (jsstring \<times> jsstring) option" where
  "lex_string [] = None"
| "lex_string (c # cs) =
     (if c = 0x22 then Some ([], cs)
      else if c = 0x5C then
        (case cs of
           [] \<Rightarrow> None
         | e # es \<Rightarrow>
             if e = 0x75 then
               (case es of
                  h1 # h2 # h3 # h4 # es' \<Rightarrow>
                    (case hex4 h1 h2 h3 h4 of
                       None \<Rightarrow> None
                     | Some u \<Rightarrow> map_option (apfst ((#) u)) (lex_string es'))
                | _ \<Rightarrow> None)
             else
               (case escape e of
                  None \<Rightarrow> None
                | Some u \<Rightarrow> map_option (apfst ((#) u)) (lex_string es)))
      else if c < 0x20 then None
      else map_option (apfst ((#) c)) (lex_string cs))"

fun digits_val :: "jsstring \<Rightarrow> nat" where
  "digits_val ds = foldl (\<lambda>n d. 10 * n + (unat d - 0x30)) 0 ds"

definition pow10 :: "int \<Rightarrow> rat" where
  "pow10 e = (if 0 \<le> e then 10 ^ nat e else 1 / 10 ^ nat (- e))"

text \<open>
  A number literal \<open>-?(0|[1-9][0-9]*)(\.[0-9]+)?([eE][+-]?[0-9]+)?\<close> at the head of the
  text: its value and the text after it. A fraction point or an exponent mark that no
  digit follows is left in the text, where the lexer rejects it.
\<close>

definition lex_sign :: "jsstring \<Rightarrow> bool \<times> jsstring" where
  "lex_sign s = (case s of [] \<Rightarrow> (False, s) | c # cs \<Rightarrow> if c = 0x2D then (True, cs) else (False, s))"

definition lex_int :: "jsstring \<Rightarrow> (jsstring \<times> jsstring) option" where
  "lex_int s =
     (case s of
        [] \<Rightarrow> None
      | c # cs \<Rightarrow>
          if c = 0x30 then Some ([c], cs)
          else if is_digit c then Some (takeWhile is_digit s, dropWhile is_digit s)
          else None)"

definition lex_frac :: "jsstring \<Rightarrow> jsstring \<times> jsstring" where
  "lex_frac s =
     (case s of
        c # d # ds \<Rightarrow>
          if c = 0x2E \<and> is_digit d then (takeWhile is_digit (d # ds), dropWhile is_digit (d # ds))
          else ([], s)
      | _ \<Rightarrow> ([], s))"

definition lex_exp_sign :: "jsstring \<Rightarrow> bool \<times> jsstring" where
  "lex_exp_sign s =
     (case s of
        [] \<Rightarrow> (False, s)
      | c # cs \<Rightarrow> if c = 0x2B then (False, cs) else if c = 0x2D then (True, cs) else (False, s))"

definition lex_exp :: "jsstring \<Rightarrow> int \<times> jsstring" where
  "lex_exp s =
     (case s of
        [] \<Rightarrow> (0, s)
      | c # cs \<Rightarrow>
          if c = 0x65 \<or> c = 0x45 then
            (case lex_exp_sign cs of
               (neg, ds) \<Rightarrow>
                 if takeWhile is_digit ds = [] then (0, s)
                 else (if neg then - int (digits_val (takeWhile is_digit ds))
                       else int (digits_val (takeWhile is_digit ds)),
                       dropWhile is_digit ds))
          else (0, s))"

definition lex_number :: "jsstring \<Rightarrow> (rat \<times> jsstring) option" where
  "lex_number s =
     (case lex_sign s of
        (neg, s1) \<Rightarrow>
          (case lex_int s1 of
             None \<Rightarrow> None
           | Some (ip, s2) \<Rightarrow>
               (case lex_frac s2 of
                  (fp, s3) \<Rightarrow>
                    (case lex_exp s3 of
                       (ex, rest) \<Rightarrow>
                         Some ((if neg then - 1 else 1) * of_nat (digits_val (ip @ fp)) *
                                 pow10 (ex - int (length fp)), rest)))))"

function lex :: "jsstring \<Rightarrow> token list option" where
  "lex [] = Some []"
| "lex (c # cs) =
     (if json_ws c then lex cs
      else if c = 0x7B then map_option ((#) TLBrace) (lex cs)
      else if c = 0x7D then map_option ((#) TRBrace) (lex cs)
      else if c = 0x5B then map_option ((#) TLBracket) (lex cs)
      else if c = 0x5D then map_option ((#) TRBracket) (lex cs)
      else if c = 0x3A then map_option ((#) TColon) (lex cs)
      else if c = 0x2C then map_option ((#) TComma) (lex cs)
      else if c = 0x22 then
        (case lex_string cs of
           None \<Rightarrow> None
         | Some (str, rest) \<Rightarrow> map_option ((#) (TString str)) (lex rest))
      else if c = 0x2D \<or> is_digit c then
        (case lex_number (c # cs) of
           None \<Rightarrow> None
         | Some (q, rest) \<Rightarrow> map_option ((#) (TNumber q)) (lex rest))
      else if take 4 (c # cs) = asc ''true'' then map_option ((#) TTrue) (lex (drop 3 cs))
      else if take 5 (c # cs) = asc ''false'' then map_option ((#) TFalse) (lex (drop 4 cs))
      else if take 4 (c # cs) = asc ''null'' then map_option ((#) TNull) (lex (drop 3 cs))
      else None)"
  by pat_completeness auto
termination
proof -
  have str: "length r < length s" if "lex_string s = Some (v, r)" for s v r
    using that
  proof (induction s arbitrary: v rule: length_induct)
    case (1 s)
    have IH: "length r < length s'" if "lex_string s' = Some (v', r)" "length s' < length s" for s' v'
      using 1(1) that by blast
    show ?case
    proof (cases s)
      case Nil
      with 1(2) show ?thesis by simp
    next
      case (Cons c cs)
      note eq = 1(2) [unfolded Cons]
      show ?thesis
      proof (cases "c = 0x22")
        case True
        with eq Cons show ?thesis by simp
      next
        case nq: False
        show ?thesis
        proof (cases "c = 0x5C")
          case False
          with eq nq obtain v' where "lex_string cs = Some (v', r)"
            by (simp split: if_splits) blast
          then have "length r < length cs"
            using Cons by (intro IH) simp_all
          with Cons show ?thesis by simp
        next
          case bs: True
          with eq obtain e es where cs: "cs = e # es"
            by (cases cs) simp_all
          show ?thesis
          proof (cases "e = 0x75")
            case False
            with eq bs cs obtain v' where "lex_string es = Some (v', r)"
              by (simp split: option.splits) blast
            then have "length r < length es"
              using Cons cs by (intro IH) simp_all
            with Cons cs show ?thesis by simp
          next
            case True
            with eq bs cs obtain h1 h2 h3 h4 es' v'
              where es: "es = h1 # h2 # h3 # h4 # es'" and "lex_string es' = Some (v', r)"
              by (simp split: option.splits list.splits) blast
            then have "length r < length es'"
              using Cons cs by (intro IH) simp_all
            with Cons cs es show ?thesis by simp
          qed
        qed
      qed
    qed
  qed
  have num: "length r < length s" if a: "lex_number s = Some (q, r)" for s q r
  proof -
    obtain neg s1 where s1: "lex_sign s = (neg, s1)"
      by (cases "lex_sign s")
    then have l1: "length s1 \<le> length s"
      by (auto simp: lex_sign_def split: list.splits if_splits)
    from a s1 obtain ip s2 where s2: "lex_int s1 = Some (ip, s2)"
      by (auto simp: lex_number_def split: option.splits)
    then have l2: "length s2 < length s1"
      by (auto simp: lex_int_def length_dropWhile_le less_Suc_eq_le split: list.splits if_splits)
    obtain fp s3 where s3: "lex_frac s2 = (fp, s3)"
      by (cases "lex_frac s2")
    then have l3: "length s3 \<le> length s2"
      by (auto simp: lex_frac_def length_dropWhile_le le_SucI split: list.splits if_splits)
    obtain ex s4 where s4: "lex_exp s3 = (ex, s4)"
      by (cases "lex_exp s3")
    have dw: "length (dropWhile is_digit xs) \<le> Suc (Suc (length xs))" for xs
      using length_dropWhile_le [of is_digit xs] by simp
    from s4 have l4: "length s4 \<le> length s3"
      by (auto simp: lex_exp_def lex_exp_sign_def length_dropWhile_le le_SucI dw
          split: list.splits if_splits prod.splits)
    from a s1 s2 s3 s4 have "r = s4"
      by (simp add: lex_number_def)
    with l1 l2 l3 l4 show ?thesis by simp
  qed
  show ?thesis
  proof (relation "measure length", goal_cases)
    case (9 c cs x str rest)
    then show ?case
      using str [of cs str rest] by simp
  next
    case (10 c cs x q rest)
    then show ?case
      using num [of "c # cs" q rest] by simp
  qed simp_all
qed

declare lex.simps [simp del]

text \<open>
  The parser's stack: one frame for every array or object that is open, the innermost
  first, each recording how far it has been read.
\<close>

datatype frame =
    ArrStart
  | ArrNext "jsvalue list"
  | ArrAfter "jsvalue list"
  | ObjStart
  | ObjNext "(jsstring \<times> jsvalue) list"
  | ObjKey "(jsstring \<times> jsvalue) list" jsstring
  | ObjColon "(jsstring \<times> jsvalue) list" jsstring
  | ObjAfter "(jsstring \<times> jsvalue) list"

datatype pstate = Start | Stack "frame list" | Finished jsvalue | Failed

text \<open>A value is complete: it is the whole text's, or goes into the innermost open frame.\<close>

fun deliver :: "jsvalue \<Rightarrow> frame list \<Rightarrow> pstate" where
  "deliver v [] = Finished v"
| "deliver v (ArrStart # st) = Stack (ArrAfter [v] # st)"
| "deliver v (ArrNext vs # st) = Stack (ArrAfter (vs @ [v]) # st)"
| "deliver v (ObjColon kvs k # st) = Stack (ObjAfter (kvs @ [(k, v)]) # st)"
| "deliver v (f # st) = Failed"

text \<open>A token where a value must begin.\<close>

fun begin_value :: "token \<Rightarrow> frame list \<Rightarrow> pstate" where
  "begin_value (TString s) st = deliver (JString s) st"
| "begin_value (TNumber q) st = deliver (JNumber q) st"
| "begin_value TTrue st = deliver (JBool True) st"
| "begin_value TFalse st = deliver (JBool False) st"
| "begin_value TNull st = deliver JNull st"
| "begin_value TLBrace st = Stack (ObjStart # st)"
| "begin_value TLBracket st = Stack (ArrStart # st)"
| "begin_value tok st = Failed"

fun pstep :: "pstate \<Rightarrow> token \<Rightarrow> pstate" where
  "pstep Start tok = begin_value tok []"
| "pstep (Stack (ArrStart # st)) tok =
     (if tok = TRBracket then deliver (JArray []) st else begin_value tok (ArrStart # st))"
| "pstep (Stack (ArrNext vs # st)) tok = begin_value tok (ArrNext vs # st)"
| "pstep (Stack (ArrAfter vs # st)) tok =
     (if tok = TComma then Stack (ArrNext vs # st)
      else if tok = TRBracket then deliver (JArray vs) st
      else Failed)"
| "pstep (Stack (ObjStart # st)) tok =
     (case tok of
        TString k \<Rightarrow> Stack (ObjKey [] k # st)
      | TRBrace \<Rightarrow> deliver (JObject []) st
      | _ \<Rightarrow> Failed)"
| "pstep (Stack (ObjNext kvs # st)) tok =
     (case tok of TString k \<Rightarrow> Stack (ObjKey kvs k # st) | _ \<Rightarrow> Failed)"
| "pstep (Stack (ObjKey kvs k # st)) tok =
     (if tok = TColon then Stack (ObjColon kvs k # st) else Failed)"
| "pstep (Stack (ObjColon kvs k # st)) tok = begin_value tok (ObjColon kvs k # st)"
| "pstep (Stack (ObjAfter kvs # st)) tok =
     (if tok = TComma then Stack (ObjNext kvs # st)
      else if tok = TRBrace then deliver (JObject kvs) st
      else Failed)"
| "pstep ps tok = Failed"

definition JSON_parse :: "jsstring \<Rightarrow> js_error + jsvalue" where
  "JSON_parse text =
     (case lex text of
        None \<Rightarrow> Inl SyntaxError
      | Some toks \<Rightarrow>
          (case foldl pstep Start toks of
             Finished v \<Rightarrow> Inr v
           | _ \<Rightarrow> Inl SyntaxError))"

section \<open>The response parser: the product card\<close>

text \<open>
  The component exists in two variants, which differ in the conversation a page starts
  with, in the price shown when a product has none, and in nothing else that is
  modelled here.
\<close>

datatype variant = EmptyStart | Greeting

text \<open>\<open>/\{(?:[^{}]|(?:\{[^{}]*\}))*\}/\<close>, with \<open>{\<close> the code unit 0x7B and \<open>}\<close> 0x7D.\<close>

definition jsonRegex :: re where
  "jsonRegex =
     Seq (Chr 0x7B)
       (Seq (Star (Alt (NoneOf [Unit 0x7B, Unit 0x7D])
                       (Seq (Chr 0x7B) (Seq (Star (NoneOf [Unit 0x7B, Unit 0x7D])) (Chr 0x7D)))))
            (Chr 0x7D))"

text \<open>
  The object literal that \<open>extractProducts\<close> builds. The fields hold whatever the
  parsed JSON gives: the declared types \<open>string\<close> and \<open>string[]\<close> are not checked at
  run time.
\<close>

record Product =
  name :: jsvalue
  description :: jsvalue
  price :: jsvalue
  url :: jsvalue
  image_url :: jsvalue
  ingredients :: jsvalue
  advantages :: jsvalue
  suitability :: jsvalue
  questions :: jsvalue

text \<open>The euro sign and \<open>XX.XX\<close> in one variant, the euro sign and \<open>18.99\<close> in the other.\<close>

fun default_price :: "variant \<Rightarrow> jsstring" where
  "default_price EmptyStart = 0x20AC # asc ''XX.XX''"
| "default_price Greeting = 0x20AC # asc ''18.99''"

text \<open>
  The body of the \<open>try\<close> block of \<open>extractProducts\<close>: \<open>JSON.parse\<close> may throw a
  \<open>SyntaxError\<close>, reading a property may throw a \<open>TypeError\<close>. Without a match the
  block ends and the function returns \<open>null\<close>.
\<close>

definition extractProducts_try :: "variant \<Rightarrow> jsstring \<Rightarrow> js_error + Product list option" where
  "extractProducts_try v text =
     (case search jsonRegex text of
        None \<Rightarrow> Inr None
      | Some (jsonMatch, after) \<Rightarrow>
          then_do (JSON_parse jsonMatch) (\<lambda>productData.
          then_do (get_prop productData (asc ''name'')) (\<lambda>p_name.
          then_do (get_prop productData (asc ''description'')) (\<lambda>p_description.
          then_do (get_prop productData (asc ''price'')) (\<lambda>p_price.
          then_do (get_prop productData (asc ''url'')) (\<lambda>p_url.
          then_do (get_prop productData (asc ''image_url'')) (\<lambda>p_image_url.
          then_do (get_prop productData (asc ''ingredients'')) (\<lambda>p_ingredients.
          then_do (get_prop productData (asc ''advantages'')) (\<lambda>p_advantages.
          then_do (get_prop productData (asc ''suitability'')) (\<lambda>p_suitability.
          then_do (get_prop productData (asc ''questions'')) (\<lambda>p_questions.
          Inr (Some
            [\<lparr>name = p_name,
              description = p_description,
              price = js_or p_price (JString (default_price v)),
              url = js_or p_url (JString (asc ''#'')),
              image_url = js_or p_image_url (JString []),
              ingredients = js_or p_ingredients (JArray []),
              advantages = js_or p_advantages (JArray []),
              suitability = js_or p_suitability (JArray []),
              questions = js_or p_questions (JArray [])\<rparr>]))))))))))))"

text \<open>
  \<open>extractProducts\<close>: the \<open>catch\<close> clause logs whatever the \<open>try\<close> block threw, and
  the function then returns \<open>null\<close>. The result keeps the type of a computation that
  may throw, so that what leaves the function can be stated.
\<close>

definition extractProducts :: "variant \<Rightarrow> jsstring \<Rightarrow> js_error + Product list option" where
  "extractProducts v text =
     (case extractProducts_try v text of
        Inl e \<Rightarrow> Inr None
      | Inr r \<Rightarrow> Inr r)"

text \<open>
  The image that the product card with an image shows:
  \<open>product.image_url || defaultImageUrl\<close>.
\<close>

definition defaultImageUrl :: jsstring where
  "defaultImageUrl =
     asc ''https://encrypted-tbn0.gstatic.com/images?q=tbn:ANd9GcTydlkO'' @
     asc ''WWEOacWIaFKSdUMi8eHDLuRe6-D7rnk4x5EHaggA-KpmcKTkEq4hmr73I_sZ'' @
     asc ''4wE&usqp=CAU''"

definition ProductCard_image :: "Product \<Rightarrow> jsvalue" where
  "ProductCard_image product = js_or (image_url product) (JString defaultImageUrl)"

section \<open>The chat shell\<close>

datatype chat_role = User | Assistant

record ChatMessage =
  role :: chat_role
  content :: jsvalue

record chat_state =
  messages :: "ChatMessage list"
  input :: jsstring
  isLoading :: bool

text \<open>
  The greeting of the variant that starts with one: the literal in the initial state
  and the literal in \<open>handleReset\<close>.
\<close>

definition initial_greeting :: jsstring where
  "initial_greeting =
     [0xD83D, 0xDC4B] @
     asc '' Hi! I'' @
     [0x0027] @
     asc ''m kNOwLI, your personal beauty advisor. I'' @
     [0x0027] @
     asc ''m here to help you discover the perfect L'' @
     [0x0027] @
     asc ''Or'' @
     [0x00E9] @
     asc ''al products for your needs. Whether you'' @
     [0x0027] @
     asc ''re looking for skincare, haircare, or makeup '' @
     asc ''recommendations, I'' @
     [0x0027] @
     asc ''ll guide you to the best solutions. What can I help you '' @
     asc ''with today?''"

definition reset_greeting :: jsstring where
  "reset_greeting =
     [0xD83D, 0xDC4B] @
     asc '' Hi! I'' @
     [0x0027] @
     asc ''m kNOwLI, your personal beauty advisor. I'' @
     [0x0027] @
     asc ''m here to help you discover the perfect L'' @
     [0x0027] @
     asc ''Or'' @
     [0x00E9] @
     asc ''al products for your needs. Whether you'' @
     [0x0027] @
     asc ''re looking for skincare, haircare, or makeup '' @
     asc ''recommendations, I'' @
     [0x0027] @
     asc ''ll guide you to the best solutions. What can I help you '' @
     asc ''with today?''"

fun initial_state :: "variant \<Rightarrow> chat_state" where
  "initial_state EmptyStart = \<lparr>messages = [], input = [], isLoading = False\<rparr>"
| "initial_state Greeting =
     \<lparr>messages = [\<lparr>role = Assistant, content = JString initial_greeting\<rparr>],
      input = [], isLoading = False\<rparr>"

fun handleReset :: "variant \<Rightarrow> chat_state \<Rightarrow> chat_state" where
  "handleReset EmptyStart st = st\<lparr>messages := []\<rparr>"
| "handleReset Greeting st =
     st\<lparr>messages := [\<lparr>role = Assistant, content = JString reset_greeting\<rparr>]\<rparr>"

text \<open>
  What \<open>fetch\<close> is called with: the address, and the \<open>messages\<close> of the JSON body.
  What the network answers: \<open>fetch\<close> rejects (with a \<open>TypeError\<close>), or a response
  arrives with a status code and a body text.
\<close>

record chat_request =
  req_url :: jsstring
  req_messages :: "ChatMessage list"

datatype fetch_result = NetworkFailure | Response nat jsstring

definition fallback_message :: ChatMessage where
  "fallback_message =
     \<lparr>role = Assistant,
      content = JString (asc ''Sorry, there was an error processing your request.'')\<rparr>"

text \<open>
  The two awaits of the \<open>try\<close> block of \<open>handleSubmit\<close>:
  \<open>await fetch(...)\<close> and \<open>await response.json()\<close>. The status of the response is
  not read.
\<close>

definition request_data :: "(chat_request \<Rightarrow> fetch_result) \<Rightarrow> chat_request \<Rightarrow> js_error + jsvalue" where
  "request_data fetch request =
     (case fetch request of
        NetworkFailure \<Rightarrow> Inl TypeError
      | Response status body \<Rightarrow> JSON_parse body)"

text \<open>
  The two updaters that \<open>handleSubmit\<close> passes to \<open>setMessages\<close> after the request:
  \<open>(prev) => [...prev, {role: 'assistant', content: data.text}]\<close> in the \<open>try\<close>
  block and \<open>(prev) => [...prev, fallback]\<close> in the \<open>catch\<close> clause. React runs an
  updater when it next renders, after \<open>setMessages\<close> has returned: \<open>data.text\<close> is
  read then, outside the \<open>try\<close> block, and what the updater throws is not caught
  by \<open>handleSubmit\<close>.
\<close>

definition append_reply :: "jsvalue \<Rightarrow> ChatMessage list \<Rightarrow> js_error + ChatMessage list" where
  "append_reply data prev =
     then_do (get_prop data (asc ''text''))
       (\<lambda>reply. Inr (prev @ [\<lparr>role = Assistant, content = reply\<rparr>]))"

definition append_fallback :: "ChatMessage list \<Rightarrow> js_error + ChatMessage list" where
  "append_fallback prev = Inr (prev @ [fallback_message])"

text \<open>
  \<open>handleSubmit\<close>, for one submission that runs to its end with no other event of
  the page in between; \<open>fetch\<close> is the network's answer to a request. The result is
  the state that the page shows afterwards, or the error that an updater threw (the
  page then shows no new state), and the requests that were issued.
\<close>

definition handleSubmit :: "(chat_request \<Rightarrow> fetch_result) \<Rightarrow> chat_state \<Rightarrow> (js_error + chat_state) \<times> chat_request list" where
  "handleSubmit fetch st =
     (if trim (input st) = [] \<or> isLoading st then (Inr st, [])
      else
        (let userMessage = \<lparr>role = User, content = JString (input st)\<rparr>;
             st1 = st\<lparr>messages := messages st @ [userMessage], input := [], isLoading := True\<rparr>;
             request = \<lparr>req_url = asc ''http://localhost:8000/api/chat'',
                        req_messages = messages st @ [userMessage]\<rparr>;
             updater = (case request_data fetch request of
                          Inr data \<Rightarrow> append_reply data
                        | Inl e \<Rightarrow> append_fallback)
         in (case updater (messages st1) of
               Inl e \<Rightarrow> Inl e
             | Inr ms \<Rightarrow> Inr (st1\<lparr>messages := ms, isLoading := False\<rparr>),
             [request])))"

section \<open>Notions used in the statements\<close>

text \<open>The header pattern matches at the head of a text; it matches somewhere in a text.\<close>

definition header_at :: "jsstring \<Rightarrow> bool" where
  "header_at s \<longleftrightarrow> rests headerRe s \<noteq> []"

fun has_header :: "jsstring \<Rightarrow> bool" where
  "has_header [] = False"
| "has_header (c # cs) = (header_at (c # cs) \<or> has_header cs)"

text \<open>The code units of the character class, each once.\<close>

definition marker_units :: "cu list" where
  "marker_units = [0xD83D, 0xDC69, 0xD83C, 0xDFFC, 0x200D, 0xDD2C, 0xDF1F, 0x2728, 0xDCAB]"

text \<open>
  The four markers as the specification documents them, each a whole emoji: the
  scientist (woman, skin tone, joiner, microscope), the star, the sparkles, the dizzy
  symbol. A documented header is \<open>## \<close> followed by one of them.
\<close>

definition documented_markers :: "jsstring list" where
  "documented_markers =
     [[0xD83D, 0xDC69, 0xD83C, 0xDFFC, 0x200D, 0xD83D, 0xDD2C],
      [0xD83C, 0xDF1F],
      [0x2728],
      [0xD83D, 0xDCAB]]"

definition documented_header_at :: "jsstring \<Rightarrow> bool" where
  "documented_header_at s \<longleftrightarrow>
     list_ex (\<lambda>m. take (3 + length m) s = asc ''## '' @ m) documented_markers"

text \<open>A text without braces.\<close>

definition brace_free :: "jsstring \<Rightarrow> bool" where
  "brace_free s \<longleftrightarrow> 0x7B \<notin> set s \<and> 0x7D \<notin> set s"

text \<open>The two alternatives under the star of \<open>jsonRegex\<close>.\<close>

definition nobrace :: re where
  "nobrace = NoneOf [Unit 0x7B, Unit 0x7D]"

definition nested :: re where
  "nested = Seq (Chr 0x7B) (Seq (Star nobrace) (Chr 0x7D))"

text \<open>
  What one iteration of the star of \<open>jsonRegex\<close> matches: a code unit that is not a
  brace, or a pair of braces around a text without braces.
\<close>

datatype item = Plain cu | Nested jsstring

fun item_text :: "item \<Rightarrow> jsstring" where
  "item_text (Plain c) = [c]"
| "item_text (Nested g) = 0x7B # g @ [0x7D]"

fun item_ok :: "item \<Rightarrow> bool" where
  "item_ok (Plain c) = (c \<noteq> 0x7B \<and> c \<noteq> 0x7D)"
| "item_ok (Nested g) = brace_free g"

text \<open>
  The invariant of the JSON parser on a text that starts with an opening brace: the
  outermost open frame is an object's, so the value that comes out is an object.
\<close>

fun obj_frame :: "frame \<Rightarrow> bool" where
  "obj_frame ArrStart = False"
| "obj_frame (ArrNext vs) = False"
| "obj_frame (ArrAfter vs) = False"
| "obj_frame f = True"

definition obj_stack :: "frame list \<Rightarrow> bool" where
  "obj_stack st \<longleftrightarrow> st \<noteq> [] \<and> obj_frame (last st)"

fun obj_state :: "pstate \<Rightarrow> bool" where
  "obj_state Start = False"
| "obj_state (Stack st) = obj_stack st"
| "obj_state (Finished v) = (case v of JObject kvs \<Rightarrow> True | _ \<Rightarrow> False)"
| "obj_state Failed = True"

text \<open>The optional fields of a product.\<close>

definition optional_fields :: "jsstring list" where
  "optional_fields =
     [asc ''price'', asc ''url'', asc ''image_url'', asc ''ingredients'', asc ''advantages'',
      asc ''suitability'', asc ''questions'']"

text \<open>The own property of an object, if it has one of that name.\<close>

definition own_prop :: "(jsstring \<times> jsvalue) list \<Rightarrow> jsstring \<Rightarrow> jsvalue option" where
  "own_prop kvs k = map_of (rev kvs) k"

section \<open>Example inputs\<close>

text \<open>A string literal of a JSON text: the characters between double quotes.\<close>

definition quoted :: "string \<Rightarrow> jsstring" where
  "quoted s = 0x22 # asc s @ [0x22]"

text \<open>\<open>hello\<close>, a reply without any header.\<close>

definition hello_text :: jsstring where
  "hello_text = asc ''hello''"

text \<open>The specification's example: a star header, then two bullet lines.\<close>

definition star_title_text :: jsstring where
  "star_title_text =
     asc ''## '' @ [0xD83C, 0xDF1F] @ asc '' Title'' @ [lf, bullet] @ asc ''A'' @ [lf, bullet] @ asc ''B''"

text \<open>
  A header with the grinning face U+1F600, whose first code unit 0xD83D is also the
  first of the woman, the microscope and the dizzy symbol; and a reply with an
  introduction, a star section and a section under that header.
\<close>

definition grin_header :: jsstring where
  "grin_header = asc ''## '' @ [0xD83D, 0xDE00] @ asc '' Tips''"

definition grin_reply :: jsstring where
  "grin_reply =
     asc ''Intro '' @ asc ''## '' @ [0xD83C, 0xDF1F] @ asc '' Pick'' @ [lf, bullet] @ asc ''A'' @ [lf] @
     grin_header @ [lf, bullet] @ asc ''B''"

text \<open>A reply with one flat product object, and the product it gives.\<close>

definition serum_object :: jsstring where
  "serum_object =
     asc ''{'' @ quoted ''name'' @ asc '': '' @ quoted ''Serum'' @ asc '', '' @
     quoted ''description'' @ asc '': '' @ quoted ''Hydrating'' @ asc ''}''"

definition serum_text :: jsstring where
  "serum_text = asc ''Try this: '' @ serum_object @ asc '' Enjoy''"

definition serum_product :: "variant \<Rightarrow> Product" where
  "serum_product v =
     \<lparr>name = JString (asc ''Serum''), description = JString (asc ''Hydrating''),
      price = JString (default_price v), url = JString (asc ''#''), image_url = JString [],
      ingredients = JArray [], advantages = JArray [], suitability = JArray [],
      questions = JArray []\<rparr>"

text \<open>A reply whose product object holds one nested object.\<close>

definition kit_object :: jsstring where
  "kit_object =
     asc ''{'' @ quoted ''name'' @ asc '': '' @ quoted ''Kit'' @ asc '', '' @
     quoted ''box'' @ asc '': {'' @ quoted ''size'' @ asc '': 2}, '' @
     quoted ''url'' @ asc '': '' @ quoted ''/kit'' @ asc ''}''"

definition kit_text :: jsstring where
  "kit_text = asc ''See '' @ kit_object @ asc ''!''"

text \<open>
  The same object after a pair of braces that is not JSON; an object with two nested
  objects side by side; and an object, \<open>{"name": "Kit", "box": {"note": "}"}}\<close>, whose
  nested object holds a closing brace in a string.
\<close>

definition aside_kit_text :: jsstring where
  "aside_kit_text = asc ''{a} '' @ kit_object"

definition twin_object :: jsstring where
  "twin_object =
     asc ''{'' @ quoted ''name'' @ asc '': '' @ quoted ''Duo'' @ asc '', '' @
     quoted ''box'' @ asc '': {'' @ quoted ''size'' @ asc '': 2}, '' @
     quoted ''lid'' @ asc '': {}}''"

definition note_object :: jsstring where
  "note_object =
     asc ''{'' @ quoted ''name'' @ asc '': '' @ quoted ''Kit'' @ asc '', '' @
     quoted ''box'' @ asc '': {'' @ quoted ''note'' @ asc '': '' @ quoted ''}'' @ asc ''}}''"

text \<open>What the pattern matches of it: \<open>{"name": "Kit", "box": {"note": "}"}\<close>.\<close>

definition note_match :: jsstring where
  "note_match =
     asc ''{'' @ quoted ''name'' @ asc '': '' @ quoted ''Kit'' @ asc '', '' @
     quoted ''box'' @ asc '': {'' @ quoted ''note'' @ asc '': '' @ quoted ''}'' @ asc ''}''"

text \<open>The product that \<open>{}\<close> gives.\<close>

definition empty_product :: "variant \<Rightarrow> Product" where
  "empty_product v =
     \<lparr>name = JUndefined, description = JUndefined,
      price = JString (default_price v), url = JString (asc ''#''), image_url = JString [],
      ingredients = JArray [], advantages = JArray [], suitability = JArray [],
      questions = JArray []\<rparr>"

text \<open>
  A server that answers every request with status 500 and the JSON body
  \<open>{"detail": "Internal Server Error"}\<close>; a network that is down; a server that
  answers with a page that is not JSON.
\<close>

definition server_error_fetch :: "chat_request \<Rightarrow> fetch_result" where
  "server_error_fetch request =
     Response 500 (asc ''{'' @ quoted ''detail'' @ asc '': '' @ quoted ''Internal Server Error'' @ asc ''}'')"

definition offline_fetch :: "chat_request \<Rightarrow> fetch_result" where
  "offline_fetch request = NetworkFailure"



definition null_body_fetch :: "chat_request \<Rightarrow> fetch_result" where
  "null_body_fetch request = Response 200 (asc ''null'')"

text \<open>A page on which the user has typed \<open>hi\<close>, blanks only, or \<open>hi\<close> during a request.\<close>

definition typed_hi :: chat_state where
  "typed_hi = \<lparr>messages = [], input = asc ''hi'', isLoading = False\<rparr>"

definition typed_blanks :: chat_state where
  "typed_blanks =
     \<lparr>messages = [\<lparr>role = User, content = JString (asc ''hi'')\<rparr>], input = asc ''   '',
      isLoading = False\<rparr>"

definition typed_while_loading :: chat_state where
  "typed_while_loading =
     \<lparr>messages = [\<lparr>role = User, content = JString (asc ''hi'')\<rparr>], input = asc ''more'',
      isLoading = True\<rparr>"

definition user_hi :: ChatMessage where
  "user_hi = \<lparr>role = User, content = JString (asc ''hi'')\<rparr>"


section \<open>Properties of the regular expression matcher\<close>

lemmas rests_basic = rests.simps(1-5,8)

lemma rests_suffix: "u \<in> set (rests r s) \<Longrightarrow> length u \<le> length s"
proof (induction r s arbitrary: u rule: rests.induct)
  case (1 c s)
  then show ?case by (cases s) (simp_all add: rests_basic split: if_splits)
next
  case (2 items s)
  then show ?case by (cases s) (simp_all add: rests_basic split: if_splits)
next
  case (3 items s)
  then show ?case by (cases s) (simp_all add: rests_basic split: if_splits)
next
  case (4 a b s)
  from 4(3) obtain x where x: "x \<in> set (rests a s)" "u \<in> set (rests b x)"
    by (auto simp: rests_basic)
  have "length u \<le> length x"
    using 4(2) x by blast
  moreover have "length x \<le> length s"
    using 4(1) x by blast
  ultimately show ?case by simp
next
  case (5 a b s)
  then show ?case by (auto simp: rests_basic)
next
  case (6 a s)
  from 6(3) have "u \<in> set (concat (map (\<lambda>t. if length t < length s then rests (Star a) t else [])
      (rests a s)) @ [s])"
    by (simp only: rests.simps(6) [of a s])
  then consider "u = s"
    | x where "x \<in> set (rests a s)" "length x < length s" "u \<in> set (rests (Star a) x)"
    by (auto split: if_splits)
  then show ?case
  proof cases
    case 1
    then show ?thesis by simp
  next
    case 2
    from 2 have "length u \<le> length x"
      by (rule 6(2))
    with 2(2) show ?thesis by simp
  qed
next
  case (7 a s)
  from 7(3) have "u \<in> set (s # concat (map (\<lambda>t. if length t < length s then rests (LazyStar a) t else [])
      (rests a s)))"
    by (simp only: rests.simps(7) [of a s])
  then consider "u = s"
    | x where "x \<in> set (rests a s)" "length x < length s" "u \<in> set (rests (LazyStar a) x)"
    by (auto split: if_splits)
  then show ?case
  proof cases
    case 1
    then show ?thesis by simp
  next
    case 2
    from 2 have "length u \<le> length x"
      by (rule 7(2))
    with 2(2) show ?thesis by simp
  qed
next
  case (8 a s)
  then show ?case by (simp add: rests_basic split: if_splits)
qed

lemma seq_chr:
  "rests (Seq (Chr c) r) s = (case s of [] \<Rightarrow> [] | x # xs \<Rightarrow> if x = c then rests r xs else [])"
  by (cases s) (simp_all add: rests_basic)

lemma concat_map_if_append:
  "concat (map f (concat (map g xs))) = concat (map (\<lambda>x. concat (map f (g x))) xs)"
  by (induction xs) simp_all

lemma seq_star_step:
  "rests (Seq (Star a) b) s =
     concat (map (\<lambda>t. if length t < length s then rests (Seq (Star a) b) t else []) (rests a s))
     @ rests b s"
proof -
  have "rests (Seq (Star a) b) s = concat (map (rests b) (rests (Star a) s))"
    by (simp add: rests_basic)
  also have "\<dots> = concat (map (rests b)
      (concat (map (\<lambda>t. if length t < length s then rests (Star a) t else []) (rests a s)) @ [s]))"
    by (simp only: rests.simps(6) [of a s])
  also have "\<dots> = concat (map (\<lambda>t. concat (map (rests b)
      (if length t < length s then rests (Star a) t else []))) (rests a s)) @ rests b s"
    by (simp add: concat_map_if_append)
  also have "(\<lambda>t. concat (map (rests b) (if length t < length s then rests (Star a) t else [])))
      = (\<lambda>t. if length t < length s then rests (Seq (Star a) b) t else [])"
    by (rule ext) (simp add: rests_basic)
  finally show ?thesis .
qed

lemma inner_close:
  "brace_free b \<Longrightarrow> rests (Seq (Star nobrace) (Chr 0x7D)) (b @ 0x7D # s) = [s]"
proof (induction b)
  case Nil
  show ?case
    by (subst seq_star_step) (simp add: nobrace_def rests_basic)
next
  case (Cons c b)
  then have c: "c \<noteq> 0x7B" "c \<noteq> 0x7D" and b: "brace_free b"
    by (auto simp: brace_free_def)
  have "rests nobrace ((c # b) @ 0x7D # s) = [b @ 0x7D # s]"
    using c by (simp add: nobrace_def rests_basic)
  moreover have "rests (Chr 0x7D) ((c # b) @ 0x7D # s) = []"
    using c by (simp add: rests_basic)
  ultimately show ?case
    using Cons.IH [OF b] by (subst seq_star_step) simp
qed

lemma outer_step_plain:
  assumes "c \<noteq> 0x7B" "c \<noteq> 0x7D"
  shows "rests (Seq (Star (Alt nobrace nested)) (Chr 0x7D)) (c # s)
       = rests (Seq (Star (Alt nobrace nested)) (Chr 0x7D)) s"
  using assms by (subst seq_star_step) (simp add: nobrace_def nested_def rests_basic)

lemma outer_plain:
  "brace_free a \<Longrightarrow> rests (Seq (Star (Alt nobrace nested)) (Chr 0x7D)) (a @ s)
       = rests (Seq (Star (Alt nobrace nested)) (Chr 0x7D)) s"
  by (induction a) (simp_all add: brace_free_def outer_step_plain)

lemma outer_close:
  "rests (Seq (Star (Alt nobrace nested)) (Chr 0x7D)) (0x7D # s) = [s]"
  by (subst seq_star_step) (simp add: nobrace_def nested_def rests_basic)

lemma outer_nested:
  assumes "brace_free b"
  shows "rests (Seq (Star (Alt nobrace nested)) (Chr 0x7D)) (0x7B # b @ 0x7D # s)
       = rests (Seq (Star (Alt nobrace nested)) (Chr 0x7D)) s"
proof -
  have "rests (Alt nobrace nested) (0x7B # b @ 0x7D # s) = [s]"
    using inner_close [OF assms, of s] by (simp add: nobrace_def nested_def rests_basic)
  then show ?thesis
    by (subst seq_star_step) (simp add: rests_basic)
qed

lemma jsonRegex_alt: "jsonRegex = Seq (Chr 0x7B) (Seq (Star (Alt nobrace nested)) (Chr 0x7D))"
  by (simp add: jsonRegex_def nobrace_def nested_def)

lemma rests_jsonRegex_single:
  "brace_free a \<Longrightarrow> rests jsonRegex (0x7B # a @ 0x7D # s) = [s]"
  by (simp add: jsonRegex_alt outer_plain outer_close seq_chr)

lemma outer_items:
  "list_all item_ok items \<Longrightarrow>
   rests (Seq (Star (Alt nobrace nested)) (Chr 0x7D)) (concat (map item_text items) @ s)
     = rests (Seq (Star (Alt nobrace nested)) (Chr 0x7D)) s"
proof (induction items)
  case Nil
  show ?case by simp
next
  case (Cons i items)
  then have rest: "rests (Seq (Star (Alt nobrace nested)) (Chr 0x7D)) (concat (map item_text items) @ s)
      = rests (Seq (Star (Alt nobrace nested)) (Chr 0x7D)) s"
    by simp
  show ?case
  proof (cases i)
    case (Plain c)
    with Cons.prems have "c \<noteq> 0x7B" "c \<noteq> 0x7D"
      by simp_all
    with rest Plain show ?thesis
      by (simp add: outer_step_plain)
  next
    case (Nested g)
    with Cons.prems have "brace_free g"
      by simp
    with rest Nested show ?thesis
      by (simp add: outer_nested)
  qed
qed

lemma rests_jsonRegex_items:
  "list_all item_ok items \<Longrightarrow> rests jsonRegex (0x7B # concat (map item_text items) @ 0x7D # s) = [s]"
  by (simp add: jsonRegex_alt outer_items outer_close seq_chr)

lemma rests_jsonRegex_start: "rests jsonRegex s \<noteq> [] \<Longrightarrow> \<exists>cs. s = 0x7B # cs"
  by (cases s) (simp_all add: jsonRegex_def rests.simps(1,4) split: if_splits)

lemma search_skip:
  "0x7B \<notin> set pre \<Longrightarrow> search jsonRegex (pre @ s) = search jsonRegex s"
proof (induction pre)
  case Nil
  show ?case by simp
next
  case (Cons c pre)
  then have "rests jsonRegex (c # pre @ s) = []"
    using rests_jsonRegex_start [of "c # pre @ s"] by auto
  with Cons show ?case by simp
qed

lemma search_here:
  assumes "rests r (m @ t) = t # ts" "m \<noteq> []"
  shows "search r (m @ t) = Some (m, t)"
proof -
  from assms(2) obtain c cs where m: "m = c # cs"
    by (cases m) auto
  have "take (length ((c # cs) @ t) - length t) ((c # cs) @ t) = c # cs"
    by simp
  with assms(1) show ?thesis
    unfolding m by (simp del: take_Suc_Cons)
qed

lemma search_single:
  assumes "0x7B \<notin> set pre" "brace_free a"
  shows "search jsonRegex (pre @ 0x7B # a @ 0x7D # s) = Some (0x7B # a @ [0x7D], s)"
proof -
  have "search jsonRegex ((0x7B # a @ [0x7D]) @ s) = Some (0x7B # a @ [0x7D], s)"
    using rests_jsonRegex_single [OF assms(2), of s] by (intro search_here) simp_all
  with assms(1) show ?thesis
    by (simp add: search_skip)
qed

lemma search_items:
  assumes "0x7B \<notin> set pre" "list_all item_ok items"
  shows "search jsonRegex (pre @ 0x7B # concat (map item_text items) @ 0x7D # s)
       = Some (0x7B # concat (map item_text items) @ [0x7D], s)"
proof -
  have "search jsonRegex ((0x7B # concat (map item_text items) @ [0x7D]) @ s)
      = Some (0x7B # concat (map item_text items) @ [0x7D], s)"
    using rests_jsonRegex_items [OF assms(2), of s] by (intro search_here) simp_all
  with assms(1) show ?thesis
    by (simp add: search_skip)
qed

lemma plain_items_text: "concat (map (item_text \<circ> Plain) xs) = xs"
  by (induction xs) simp_all

lemma search_jsonRegex_match:
  assumes "search jsonRegex s = Some (m, t)"
  shows "\<exists>cs. m = 0x7B # cs"
  using assms
proof (induction s)
  case Nil
  then show ?case by (simp add: jsonRegex_def rests.simps(1,4))
next
  case (Cons c s)
  show ?case
  proof (cases "rests jsonRegex (c # s)")
    case Nil
    with Cons show ?thesis by simp
  next
    case (Cons u us)
    then have c: "c = 0x7B"
      using rests_jsonRegex_start [of "c # s"] by simp
    have "u \<in> set (rests (Seq (Star (Alt nobrace nested)) (Chr 0x7D)) s)"
      using Cons c by (simp add: jsonRegex_alt seq_chr)
    then have "length u \<le> length s"
      by (rule rests_suffix)
    then have "take (length (c # s) - length u) (c # s) = c # take (length s - length u) s"
      by (simp add: Suc_diff_le)
    with Cons.prems Cons c show ?thesis by auto
  qed
qed

section \<open>Properties of the header patterns\<close>

lemma rests_headerRe:
  "rests headerRe s =
     (case s of a # b # c # d # t \<Rightarrow>
        if a = 0x23 \<and> b = 0x23 \<and> c = 0x20 \<and> d \<in> set marker_units then [t] else []
      | _ \<Rightarrow> [])"
  by (auto simp: headerRe_def seq_chr rests_basic markerClass_def marker_units_def split: list.splits)

lemma header_at_iff:
  "header_at s \<longleftrightarrow> (\<exists>d t. s = 0x23 # 0x23 # 0x20 # d # t \<and> d \<in> set marker_units)"
  by (auto simp: header_at_def rests_headerRe split: list.splits)

lemma header_at_Nil [simp]: "\<not> header_at []"
  by (simp add: header_at_iff)

lemma has_header_iff: "has_header s \<longleftrightarrow> (\<exists>pre t. s = pre @ t \<and> header_at t)"
proof (induction s)
  case Nil
  show ?case by simp
next
  case (Cons c s)
  show ?case
  proof
    assume "has_header (c # s)"
    then consider "header_at (c # s)" | "has_header s" by auto
    then show "\<exists>pre t. c # s = pre @ t \<and> header_at t"
    proof cases
      case 1
      then show ?thesis by (metis append_Nil)
    next
      case 2
      with Cons obtain pre t where "s = pre @ t" "header_at t" by auto
      then show ?thesis by (metis append_Cons)
    qed
  next
    assume "\<exists>pre t. c # s = pre @ t \<and> header_at t"
    then obtain pre t where pt: "c # s = pre @ t" "header_at t" by auto
    show "has_header (c # s)"
    proof (cases pre)
      case Nil
      with pt have "header_at (c # s)" by simp
      then show ?thesis by simp
    next
      case (Cons p pre')
      with pt have "s = pre' @ t" by simp
      with pt(2) Cons.IH show ?thesis by auto
    qed
  qed
qed

lemma header_at_append: "header_at t \<Longrightarrow> header_at (t @ u)"
  by (auto simp: header_at_iff)

lemma header_at_take: "header_at (take n t) \<Longrightarrow> header_at t"
  using header_at_append [of "take n t" "drop n t"] by simp

lemma has_header_drop: "has_header (drop n s) \<Longrightarrow> has_header s"
proof -
  assume "has_header (drop n s)"
  then obtain pre t where pt: "drop n s = pre @ t" "header_at t"
    by (auto simp: has_header_iff)
  then have "s = (take n s @ pre) @ t"
    by (metis append.assoc append_take_drop_id)
  with pt(2) show ?thesis
    unfolding has_header_iff by blast
qed

lemma has_header_take: "has_header (take n s) \<Longrightarrow> has_header s"
proof -
  assume "has_header (take n s)"
  then obtain pre t where pt: "take n s = pre @ t" "header_at t"
    by (auto simp: has_header_iff)
  then have "s = pre @ (t @ drop n s)"
    by (metis append.assoc append_take_drop_id)
  moreover have "header_at (t @ drop n s)"
    using pt(2) by (rule header_at_append)
  ultimately show ?thesis
    unfolding has_header_iff by blast
qed

lemma trim_sub: "\<exists>i n. trim s = take n (drop i s)"
proof -
  have "trim s = rev (dropWhile is_ws (rev (dropWhile is_ws s)))"
    by (simp add: trim_def)
  also have "dropWhile is_ws s = drop (length (takeWhile is_ws s)) s"
    by (rule dropWhile_eq_drop)
  finally show ?thesis
    by (metis dropWhile_eq_drop rev_drop rev_rev_ident)
qed

lemma has_header_trim: "has_header (trim s) \<Longrightarrow> has_header s"
  using trim_sub [of s] has_header_take has_header_drop by metis

lemma rests_lazy_any:
  "concat (map f (rests (LazyStar (OneOf [Space, NonSpace])) s))
     = f s @ (case s of [] \<Rightarrow> [] | c # cs \<Rightarrow> concat (map f (rests (LazyStar (OneOf [Space, NonSpace])) cs)))"
proof (cases s)
  case Nil
  show ?thesis
    unfolding Nil by (subst rests.simps(7)) (simp add: rests_basic)
next
  case (Cons c cs)
  show ?thesis
    unfolding Cons by (subst rests.simps(7)) (simp add: rests_basic)
qed

lemma no_header_no_match:
  "\<not> has_header s \<Longrightarrow>
   concat (map (\<lambda>t. map (g t) (rests headerRe t)) (rests (LazyStar (OneOf [Space, NonSpace])) s)) = []"
proof (induction s)
  case Nil
  show ?case
    by (subst rests_lazy_any) (simp add: rests_headerRe)
next
  case (Cons c s)
  then have "rests headerRe (c # s) = []" "\<not> has_header s"
    by (simp_all add: header_at_def)
  with Cons.IH show ?case
    by (subst rests_lazy_any) simp
qed

lemma strip_leading_no_header: "\<not> has_header text \<Longrightarrow> strip_leading text = text"
  by (simp add: strip_leading_def match_anchored_group_def no_header_no_match)

lemma has_header_nth: "header_at (drop i s) \<Longrightarrow> has_header s"
  by (metis append_take_drop_id has_header_iff)

lemma split_loop_no_header:
  "\<not> has_header s \<Longrightarrow> split_loop (Ahead headerRe) s p q = [drop p s]"
proof (induction "length s - q" arbitrary: q)
  case 0
  then show ?case by (subst split_loop.simps) simp
next
  case (Suc n)
  then have q: "q < length s" by simp
  have "rests (Ahead headerRe) (drop q s) = []"
    using Suc.prems has_header_nth [of q s] by (auto simp: rests_basic header_at_def)
  moreover have "split_loop (Ahead headerRe) s p (q + 1) = [drop p s]"
    using Suc by (intro Suc.hyps(1)) simp_all
  ultimately show ?case
    using q by (subst split_loop.simps) simp
qed

lemma split_re_no_header: "\<not> has_header s \<Longrightarrow> split_re (Ahead headerRe) s = [s]"
  by (simp add: split_re_def split_loop_no_header rests_basic rests_headerRe)

lemma formatResponseText_no_header:
  assumes "\<not> has_header text"
  shows "formatResponseText text = [format_section (trim text)]"
proof -
  have "\<not> has_header (trim text)"
    using assms has_header_trim by blast
  then show ?thesis
    using assms by (simp add: formatResponseText_def strip_leading_no_header split_re_no_header)
qed

lemma split_on_nonempty: "split_on sep s \<noteq> []"
  by (induction s) (auto split: list.splits)

lemma format_section_Some: "trim s \<noteq> [] \<Longrightarrow> format_section s \<noteq> None"
  using split_on_nonempty [of lf s] by (auto simp: format_section_def split: list.splits)

lemma trim_idem: "trim (trim s) = trim s"
proof -
  have a: "dropWhile P (rev (dropWhile P (rev (dropWhile P s)))) = rev (dropWhile P (rev (dropWhile P s)))" for P and s :: "'a list"
  proof (cases "dropWhile P s")
    case Nil
    show ?thesis unfolding Nil by simp
  next
    case (Cons x xs)
    then have nx: "\<not> P x"
      by (metis hd_dropWhile list.distinct(1) list.sel(1))
    have "rev (dropWhile P (rev (x # xs))) = x # rev (dropWhile P (rev xs))"
      using nx by (simp add: dropWhile_append)
    with nx show ?thesis unfolding Cons by simp
  qed
  show ?thesis
    unfolding trim_def by (simp add: a)
qed

section \<open>Properties of the JSON parser\<close>

lemma deliver_obj: "obj_stack st \<Longrightarrow> obj_state (deliver v st)"
  by (cases "(v, st)" rule: deliver.cases) (auto simp: obj_stack_def)

lemma begin_value_obj: "obj_stack st \<Longrightarrow> obj_state (begin_value tok st)"
  by (cases tok) (auto simp: deliver_obj, auto simp: obj_stack_def)

lemma deliver_obj_close:
  "obj_stack (f # st) \<Longrightarrow> obj_frame f \<Longrightarrow> obj_state (deliver (JObject kvs) st)"
  by (cases st) (auto simp: deliver_obj, auto simp: obj_stack_def intro: deliver_obj [unfolded obj_stack_def])

lemma deliver_arr_close:
  "obj_stack (f # st) \<Longrightarrow> \<not> obj_frame f \<Longrightarrow> obj_state (deliver v st)"
  by (cases st) (auto simp: obj_stack_def intro: deliver_obj [unfolded obj_stack_def])

lemma pstep_obj: "obj_state ps \<Longrightarrow> obj_state (pstep ps tok)"
proof (cases ps)
  case (Stack st)
  assume "obj_state ps"
  with Stack have st: "obj_stack st" by simp
  then obtain f st' where f: "st = f # st'"
    by (cases st) (auto simp: obj_stack_def)
  show ?thesis
  proof (cases f)
    case ArrStart
    with st f Stack show ?thesis
      using deliver_arr_close [of f st'] begin_value_obj [of st tok] by simp
  next
    case (ArrNext vs)
    with st f Stack show ?thesis
      using begin_value_obj [of st tok] by simp
  next
    case (ArrAfter vs)
    with st f Stack show ?thesis
      using deliver_arr_close [of f st'] by (simp add: obj_stack_def split: if_splits)
  next
    case ObjStart
    with st f Stack show ?thesis
      using deliver_obj_close [of f st'] by (cases tok) (simp_all add: obj_stack_def split: if_splits)
  next
    case (ObjNext kvs)
    with st f Stack show ?thesis
      by (cases tok) (simp_all add: obj_stack_def split: if_splits)
  next
    case (ObjKey kvs k)
    with st f Stack show ?thesis
      by (simp add: obj_stack_def split: if_splits)
  next
    case (ObjColon kvs k)
    with st f Stack show ?thesis
      using begin_value_obj [of st tok] by simp
  next
    case (ObjAfter kvs)
    with st f Stack show ?thesis
      using deliver_obj_close [of f st'] by (simp add: obj_stack_def split: if_splits)
  qed
qed (simp_all split: jsvalue.splits)

lemma foldl_pstep_obj: "obj_state ps \<Longrightarrow> obj_state (foldl pstep ps toks)"
  by (induction toks arbitrary: ps) (simp_all add: pstep_obj)

lemma JSON_parse_object:
  assumes "JSON_parse (0x7B # cs) = Inr v"
  shows "\<exists>kvs. v = JObject kvs"
proof -
  from assms obtain toks where toks: "lex (0x7B # cs) = Some toks"
    and fin: "foldl pstep Start toks = Finished v"
    by (auto simp: JSON_parse_def split: option.splits pstate.splits)
  have "lex (0x7B # cs) = map_option ((#) TLBrace) (lex cs)"
    by (simp add: json_ws_def lex.simps)
  with toks obtain toks' where "toks = TLBrace # toks'"
    by auto
  with fin have "foldl pstep (Stack [ObjStart]) toks' = Finished v"
    by simp
  moreover have "obj_state (foldl pstep (Stack [ObjStart]) toks')"
    by (rule foldl_pstep_obj) (simp add: obj_stack_def)
  ultimately show ?thesis
    by (cases v) simp_all
qed







section \<open>Evaluation of the examples\<close>

lemmas section_eval = asc_def is_ws_def trim_def lf_def bullet_def rests.simps split_loop.simps
  headerRe_def markerClass_def match_anchored_group_def strip_leading_def split_re_def
  format_section_def formatResponseText_def rendered_def header_at_def

lemmas json_eval = asc_def quoted_def jsonRegex_def rests.simps JSON_parse_def lex.simps json_ws_def
  is_digit_def lex_number_def lex_sign_def lex_int_def lex_frac_def lex_exp_def lex_exp_sign_def
  pow10_def escape_def hex4_def hexval_def then_do_def js_or_def

lemma hello_no_header: "\<not> has_header hello_text"
  by (simp add: hello_text_def section_eval)

lemma hello_sections:
  "formatResponseText hello_text = [Some \<lparr>title = asc ''hello'', bullets = []\<rparr>]"
  by (simp add: hello_text_def section_eval)

lemma serum_search: "search jsonRegex serum_text = Some (serum_object, asc '' Enjoy'')"
  by (simp add: serum_text_def serum_object_def json_eval)

lemma serum_parse:
  "JSON_parse serum_object =
     Inr (JObject [(asc ''name'', JString (asc ''Serum'')),
                   (asc ''description'', JString (asc ''Hydrating''))])"
  by (simp add: serum_object_def json_eval)

lemma serum_extract: "extractProducts v serum_text = Inr (Some [serum_product v])"
  by (simp add: extractProducts_def extractProducts_try_def serum_search serum_parse
      serum_product_def then_do_def js_or_def asc_def)

lemma kit_parse:
  "JSON_parse kit_object =
     Inr (JObject [(asc ''name'', JString (asc ''Kit'')),
                   (asc ''box'', JObject [(asc ''size'', JNumber 2)]),
                   (asc ''url'', JString (asc ''/kit''))])"
  by (simp add: kit_object_def json_eval)

lemma empty_object_search: "search jsonRegex (asc ''{}'') = Some (asc ''{}'', [])"
  by (simp add: json_eval)

lemma empty_object_parse: "JSON_parse (asc ''{}'') = Inr (JObject [])"
  by (simp add: json_eval)

lemma aside_kit_search: "search jsonRegex aside_kit_text = Some (asc ''{a}'', 0x20 # kit_object)"
  by (simp add: aside_kit_text_def kit_object_def json_eval)

lemma aside_parse: "JSON_parse (asc ''{a}'') = Inl SyntaxError"
  by (simp add: json_eval)

lemma note_search: "search jsonRegex note_object = Some (note_match, asc ''}'')"
  by (simp add: note_object_def note_match_def json_eval)

lemma note_match_parse: "JSON_parse note_match = Inl SyntaxError"
  by (simp add: note_match_def json_eval)

lemma note_parse:
  "JSON_parse note_object =
     Inr (JObject [(asc ''name'', JString (asc ''Kit'')),
                   (asc ''box'', JObject [(asc ''note'', JString (asc ''}''))])])"
  by (simp add: note_object_def json_eval)

lemma twin_parse:
  "JSON_parse twin_object =
     Inr (JObject [(asc ''name'', JString (asc ''Duo'')),
                   (asc ''box'', JObject [(asc ''size'', JNumber 2)]),
                   (asc ''lid'', JObject [])])"
  by (simp add: twin_object_def json_eval)

lemmas submit_eval = handleSubmit_def typed_hi_def user_hi_def request_data_def append_reply_def
  append_fallback_def trim_def is_ws_def Let_def json_eval


text \<open>
  A body \<open>null\<close> is JSON, so the \<open>catch\<close> clause is not entered; the updater then
  fails to read \<open>data.text\<close>, and no assistant message is added.
\<close>

lemma null_body_submit: "fst (handleSubmit null_body_fetch typed_hi) = Inl TypeError"
  by (simp add: submit_eval null_body_fetch_def)

section \<open>The narrative sections\<close>

lemma trim_empty_iff: "trim s = [] \<longleftrightarrow> list_all is_ws s"
proof
  assume "trim s = []"
  then have all: "\<forall>x \<in> set (dropWhile is_ws s). is_ws x"
    by (simp add: trim_def dropWhile_eq_Nil_conv)
  have "dropWhile is_ws s = []"
  proof (rule ccontr)
    assume ne: "dropWhile is_ws s \<noteq> []"
    then have "\<not> is_ws (hd (dropWhile is_ws s))"
      by (rule hd_dropWhile)
    moreover have "hd (dropWhile is_ws s) \<in> set (dropWhile is_ws s)"
      using ne by (rule hd_in_set)
    ultimately show False
      using all by blast
  qed
  then show "list_all is_ws s"
    by (simp add: dropWhile_eq_Nil_conv list_all_iff)
next
  assume "list_all is_ws s"
  then have "dropWhile is_ws s = []"
    by (simp add: dropWhile_eq_Nil_conv list_all_iff)
  then show "trim s = []"
    unfolding trim_def by (simp only: rev.simps dropWhile.simps)
qed

text \<open>
  C1 states that a text without a recognized header is dropped by the leading strip and
  gives no section. It is not: \<open>hello\<close> holds no header, and comes back as one section
  with the title \<open>hello\<close>.
\<close>

theorem no_header_dropped_counterexample:
  "\<not> has_header hello_text
   \<and> strip_leading hello_text = hello_text
   \<and> formatResponseText hello_text = [Some \<lparr>title = asc ''hello'', bullets = []\<rparr>]
   \<and> rendered (formatResponseText hello_text) \<noteq> []"
  using hello_no_header
  by (simp add: hello_sections rendered_def strip_leading_no_header)

text \<open>
  C1 as amended: on a text in which the header pattern matches nowhere, the leading
  strip changes nothing, and \<open>formatResponseText\<close> returns exactly one element, made of
  the whole trimmed text: \<open>null\<close> (nothing is shown) when the text is empty or blank,
  and otherwise one section.
\<close>

theorem no_header_one_section:
  assumes "\<not> has_header text"
  shows "strip_leading text = text
    \<and> formatResponseText text = [format_section (trim text)]
    \<and> (format_section (trim text) = None \<longleftrightarrow> list_all is_ws text)
    \<and> length (rendered (formatResponseText text)) = (if list_all is_ws text then 0 else 1)"
proof -
  have fmt: "formatResponseText text = [format_section (trim text)]"
    using assms by (rule formatResponseText_no_header)
  have none: "format_section (trim text) = None \<longleftrightarrow> list_all is_ws text"
    using format_section_Some [of "trim text"]
    by (auto simp: trim_idem trim_empty_iff [symmetric] format_section_def)
  have "length (rendered [format_section (trim text)]) = (if list_all is_ws text then 0 else 1)"
    using none by (cases "format_section (trim text)") (auto simp: rendered_def)
  with fmt none assms show ?thesis
    by (simp add: strip_leading_no_header)
qed

theorem no_header_one_section_witness:
  "\<not> has_header hello_text
   \<and> formatResponseText hello_text = [format_section (trim hello_text)]
   \<and> length (rendered (formatResponseText hello_text)) = 1"
proof -
  have nb: "\<not> list_all is_ws hello_text"
    by (simp add: hello_text_def asc_def is_ws_def)
  note inst = no_header_one_section [OF hello_no_header]
  from inst have fmt: "formatResponseText hello_text = [format_section (trim hello_text)]"
    by blast
  from inst have "length (rendered (formatResponseText hello_text))
      = (if list_all is_ws hello_text then 0 else 1)"
    by blast
  with nb have "length (rendered (formatResponseText hello_text)) = 1"
    by simp
  with fmt hello_no_header show ?thesis
    by blast
qed

text \<open>
  C6: \<open>formatResponseText\<close> on the text \<open>## \<close>, star, \<open> Title\<close>, and the two lines
  \<open>\<bullet>A\<close> and \<open>\<bullet>B\<close> returns exactly one section, with the title \<open>## \<close>, star,
  \<open> Title\<close> and the bullets \<open>A\<close> and \<open>B\<close>.
\<close>

theorem star_title_section:
  "formatResponseText star_title_text =
     [Some \<lparr>title = asc ''## '' @ [0xD83C, 0xDF1F] @ asc '' Title'',
            bullets = [asc ''A'', asc ''B'']\<rparr>]"
  by (simp add: star_title_text_def section_eval)

text \<open>
  C10: the header pattern matches \<open>## \<close> followed by any single code unit of the
  class, so every documented header is recognized, and so is a header that is not
  documented: the grinning face starts with the code unit 0xD83D of the class. In a
  reply, such a header starts a section of its own.
\<close>

theorem header_recognition_broader:
  "(header_at s \<longleftrightarrow> (\<exists>d t. s = asc ''## '' @ d # t \<and> d \<in> set marker_units))
   \<and> (documented_header_at s \<longrightarrow> header_at s)
   \<and> header_at grin_header \<and> \<not> documented_header_at grin_header
   \<and> formatResponseText grin_reply =
       [Some \<lparr>title = asc ''## '' @ [0xD83C, 0xDF1F] @ asc '' Pick'', bullets = [asc ''A'']\<rparr>,
        Some \<lparr>title = grin_header, bullets = [asc ''B'']\<rparr>]"
proof -
  have a: "header_at s \<longleftrightarrow> (\<exists>d t. s = asc ''## '' @ d # t \<and> d \<in> set marker_units)"
    by (simp add: header_at_iff asc_def)
  have b: "documented_header_at s \<longrightarrow> header_at s"
  proof
    assume "documented_header_at s"
    then obtain m where m: "m \<in> set documented_markers" "take (3 + length m) s = asc ''## '' @ m"
      by (auto simp: documented_header_at_def list_ex_iff)
    then obtain d m' where d: "m = d # m'" "d \<in> set marker_units"
      by (auto simp: documented_markers_def marker_units_def)
    with m(2) have "header_at (take (3 + length m) s)"
      by (simp add: header_at_iff asc_def)
    then show "header_at s"
      by (rule header_at_take)
  qed
  have c: "header_at grin_header"
    by (simp add: grin_header_def header_at_iff asc_def marker_units_def)
  have d: "\<not> documented_header_at grin_header"
    by (simp add: grin_header_def documented_header_at_def documented_markers_def asc_def)
  have e: "formatResponseText grin_reply =
       [Some \<lparr>title = asc ''## '' @ [0xD83C, 0xDF1F] @ asc '' Pick'', bullets = [asc ''A'']\<rparr>,
        Some \<lparr>title = grin_header, bullets = [asc ''B'']\<rparr>]"
    by (simp add: grin_reply_def grin_header_def section_eval)
  from a b c d e show ?thesis by blast
qed

theorem header_recognition_broader_witness:
  "documented_header_at star_title_text \<and> header_at star_title_text
   \<and> header_at grin_header \<and> \<not> documented_header_at grin_header"
proof -
  have "documented_header_at star_title_text"
    by (simp add: star_title_text_def documented_header_at_def documented_markers_def asc_def)
  with header_recognition_broader [of star_title_text] show ?thesis by blast
qed

section \<open>The product card\<close>

lemma extract_object:
  assumes "search jsonRegex text = Some (m, after)" "JSON_parse m = Inr (JObject kvs)"
  shows "extractProducts v text =
     Inr (Some
       [\<lparr>name = (case own_prop kvs (asc ''name'') of None \<Rightarrow> JUndefined | Some x \<Rightarrow> x),
         description = (case own_prop kvs (asc ''description'') of None \<Rightarrow> JUndefined | Some x \<Rightarrow> x),
         price = js_or (case own_prop kvs (asc ''price'') of None \<Rightarrow> JUndefined | Some x \<Rightarrow> x)
                   (JString (default_price v)),
         url = js_or (case own_prop kvs (asc ''url'') of None \<Rightarrow> JUndefined | Some x \<Rightarrow> x)
                 (JString (asc ''#'')),
         image_url = js_or (case own_prop kvs (asc ''image_url'') of None \<Rightarrow> JUndefined | Some x \<Rightarrow> x)
                       (JString []),
         ingredients = js_or (case own_prop kvs (asc ''ingredients'') of None \<Rightarrow> JUndefined | Some x \<Rightarrow> x)
                         (JArray []),
         advantages = js_or (case own_prop kvs (asc ''advantages'') of None \<Rightarrow> JUndefined | Some x \<Rightarrow> x)
                        (JArray []),
         suitability = js_or (case own_prop kvs (asc ''suitability'') of None \<Rightarrow> JUndefined | Some x \<Rightarrow> x)
                         (JArray []),
         questions = js_or (case own_prop kvs (asc ''questions'') of None \<Rightarrow> JUndefined | Some x \<Rightarrow> x)
                       (JArray [])\<rparr>])"
  using assms
  by (simp add: extractProducts_def extractProducts_try_def then_do_def own_prop_def)

lemma extract_parsed:
  assumes "search jsonRegex text = Some (m, after)" "JSON_parse m = Inr productData"
  shows "\<exists>p. extractProducts v text = Inr (Some [p])"
proof -
  from assms(1) obtain cs where "m = 0x7B # cs"
    using search_jsonRegex_match by blast
  with assms(2) obtain kvs where "productData = JObject kvs"
    using JSON_parse_object by blast
  with assms show ?thesis
    using extract_object [of "text" m after kvs v] by blast
qed

text \<open>
  C3 states that the product of a flat object with a name and a description has a
  placeholder image as its \<open>image_url\<close>. It has the empty string: the placeholder image
  is what the product card shows for it.
\<close>

theorem product_defaults_counterexample:
  "extractProducts Greeting serum_text = Inr (Some [serum_product Greeting])
   \<and> image_url (serum_product Greeting) = JString []
   \<and> image_url (serum_product Greeting) \<noteq> JString defaultImageUrl"
  by (simp add: serum_extract) (simp add: serum_product_def defaultImageUrl_def asc_def)

text \<open>
  C3 as amended: for a text whose first opening brace starts an object without braces
  inside, which parses as a JSON object with a \<open>name\<close> and a \<open>description\<close> and none of
  the optional fields, \<open>extractProducts\<close> returns one product with that name and that
  description, the variant's placeholder price, the url \<open>#\<close>, the empty string as
  \<open>image_url\<close> (for which the card shows its placeholder image), and the empty array for
  \<open>ingredients\<close>, \<open>advantages\<close>, \<open>suitability\<close> and \<open>questions\<close>.
\<close>

theorem product_defaults:
  assumes "0x7B \<notin> set pre" "brace_free body"
    and "JSON_parse (0x7B # body @ [0x7D]) = Inr (JObject kvs)"
    and "own_prop kvs (asc ''name'') = Some n" "own_prop kvs (asc ''description'') = Some d"
    and "\<forall>k \<in> set optional_fields. own_prop kvs k = None"
  shows "extractProducts v (pre @ 0x7B # body @ 0x7D # post) =
     Inr (Some
       [\<lparr>name = n, description = d, price = JString (default_price v), url = JString (asc ''#''),
         image_url = JString [], ingredients = JArray [], advantages = JArray [],
         suitability = JArray [], questions = JArray []\<rparr>])
    \<and> (\<forall>p. extractProducts v (pre @ 0x7B # body @ 0x7D # post) = Inr (Some [p])
          \<longrightarrow> ProductCard_image p = JString defaultImageUrl)"
proof -
  have "search jsonRegex (pre @ 0x7B # body @ 0x7D # post) = Some (0x7B # body @ [0x7D], post)"
    using assms(1,2) by (rule search_single)
  then have "extractProducts v (pre @ 0x7B # body @ 0x7D # post) =
     Inr (Some
       [\<lparr>name = n, description = d, price = JString (default_price v), url = JString (asc ''#''),
         image_url = JString [], ingredients = JArray [], advantages = JArray [],
         suitability = JArray [], questions = JArray []\<rparr>])"
    using assms(3-6) by (simp add: extract_object optional_fields_def js_or_def)
  then show ?thesis
    by (simp add: ProductCard_image_def js_or_def)
qed

theorem product_defaults_witness:
  "extractProducts EmptyStart serum_text = Inr (Some [serum_product EmptyStart])
   \<and> ProductCard_image (serum_product EmptyStart) = JString defaultImageUrl"
proof -
  let ?body = "quoted ''name'' @ asc '': '' @ quoted ''Serum'' @ asc '', '' @
     quoted ''description'' @ asc '': '' @ quoted ''Hydrating''"
  let ?kvs = "[(asc ''name'', JString (asc ''Serum'')), (asc ''description'', JString (asc ''Hydrating''))]"
  have obj: "serum_object = 0x7B # ?body @ [0x7D]"
    by (simp add: serum_object_def asc_def)
  have whole: "serum_text = asc ''Try this: '' @ 0x7B # ?body @ 0x7D # asc '' Enjoy''"
    by (simp add: serum_text_def serum_object_def asc_def)
  have 1: "0x7B \<notin> set (asc ''Try this: '')"
    by (simp add: asc_def)
  have 2: "brace_free ?body"
    by (simp add: brace_free_def asc_def quoted_def)
  have 3: "JSON_parse (0x7B # ?body @ [0x7D]) = Inr (JObject ?kvs)"
    using serum_parse by (simp only: obj)
  have 4: "own_prop ?kvs (asc ''name'') = Some (JString (asc ''Serum''))"
    by (simp add: own_prop_def asc_def)
  have 5: "own_prop ?kvs (asc ''description'') = Some (JString (asc ''Hydrating''))"
    by (simp add: own_prop_def asc_def)
  have 6: "\<forall>k \<in> set optional_fields. own_prop ?kvs k = None"
    by (simp add: own_prop_def optional_fields_def asc_def)
  show ?thesis
    unfolding whole
    using product_defaults [OF 1 2 3 4 5 6, where v = EmptyStart and post = "asc '' Enjoy''"]
    by (simp add: serum_product_def)
qed

text \<open>
  C4: \<open>extractProducts\<close> never throws, and it returns \<open>null\<close> exactly when the pattern
  matches nowhere in the text or the first match is not JSON.
\<close>

theorem extract_null_iff:
  "(\<exists>r. extractProducts v text = Inr r)
   \<and> (extractProducts v text = Inr None \<longleftrightarrow>
        search jsonRegex text = None
        \<or> (\<exists>m after e. search jsonRegex text = Some (m, after) \<and> JSON_parse m = Inl e))"
proof (cases "search jsonRegex text")
  case None
  then show ?thesis
    by (simp add: extractProducts_def extractProducts_try_def)
next
  case (Some ma)
  then obtain m after where s: "search jsonRegex text = Some (m, after)"
    by (cases ma) simp
  show ?thesis
  proof (cases "JSON_parse m")
    case (Inl e)
    with s show ?thesis
      by (simp add: extractProducts_def extractProducts_try_def then_do_def)
  next
    case (Inr productData)
    with s obtain p where "extractProducts v text = Inr (Some [p])"
      using extract_parsed by blast
    with s Inr show ?thesis by simp
  qed
qed

text \<open>
  C5 states that for every text that contains a JSON object with a nested pair of
  braces one level deep, \<open>extractProducts\<close> succeeds. It returns \<open>null\<close> when a pair
  of braces that is not JSON stands before the object, as only the first match is
  parsed, and when a string of the nested object holds a brace, as the match then ends
  before the object does.
\<close>

theorem nested_object_counterexample:
  "JSON_parse kit_object =
     Inr (JObject [(asc ''name'', JString (asc ''Kit'')),
                   (asc ''box'', JObject [(asc ''size'', JNumber 2)]),
                   (asc ''url'', JString (asc ''/kit''))])
   \<and> extractProducts Greeting aside_kit_text = Inr None
   \<and> JSON_parse note_object =
     Inr (JObject [(asc ''name'', JString (asc ''Kit'')),
                   (asc ''box'', JObject [(asc ''note'', JString (asc ''}''))])])
   \<and> extractProducts Greeting note_object = Inr None"
proof -
  have "extractProducts Greeting aside_kit_text = Inr None"
    by (simp add: extractProducts_def extractProducts_try_def aside_kit_search aside_parse
        then_do_def)
  moreover have "extractProducts Greeting note_object = Inr None"
    by (simp add: extractProducts_def extractProducts_try_def note_search note_match_parse
        then_do_def)
  ultimately show ?thesis
    by (simp add: kit_parse note_parse)
qed

text \<open>
  C5 as amended: for every text whose first opening brace starts an object that is made,
  between its outer braces, of code units that are not braces and of pairs of braces
  around texts without braces (nested pairs one level deep, any number of them, and no
  other brace), the pattern matches the whole object, the nested pairs included; when
  the object is JSON, it is parsed and returned as a single product.
\<close>

theorem nested_object_extracted:
  assumes "0x7B \<notin> set pre" "list_all item_ok items"
    and "JSON_parse (0x7B # concat (map item_text items) @ [0x7D]) = Inr productData"
  shows "search jsonRegex (pre @ 0x7B # concat (map item_text items) @ 0x7D # post)
       = Some (0x7B # concat (map item_text items) @ [0x7D], post)
    \<and> (\<exists>p. extractProducts v (pre @ 0x7B # concat (map item_text items) @ 0x7D # post)
            = Inr (Some [p])
          \<and> get_prop productData (asc ''name'') = Inr (name p)
          \<and> get_prop productData (asc ''description'') = Inr (description p))"
proof -
  let ?m = "0x7B # concat (map item_text items) @ [0x7D]"
  have s: "search jsonRegex (pre @ 0x7B # concat (map item_text items) @ 0x7D # post)
      = Some (?m, post)"
    using assms(1,2) by (rule search_items)
  obtain kvs where kvs: "productData = JObject kvs"
    using assms(3) JSON_parse_object by blast
  show ?thesis
    using s extract_object [OF s, of kvs v] assms(3) kvs
    by (simp add: own_prop_def)
qed

theorem nested_object_extracted_witness:
  "search jsonRegex kit_text = Some (kit_object, asc ''!'')
   \<and> (\<exists>p. extractProducts Greeting kit_text = Inr (Some [p]) \<and> name p = JString (asc ''Kit'')
          \<and> description p = JUndefined)
   \<and> search jsonRegex twin_object = Some (twin_object, [])
   \<and> (\<exists>p. extractProducts Greeting twin_object = Inr (Some [p]) \<and> name p = JString (asc ''Duo''))"
proof -
  let ?a = "quoted ''name'' @ asc '': '' @ quoted ''Kit'' @ asc '', '' @ quoted ''box'' @ asc '': ''"
  let ?b = "quoted ''size'' @ asc '': 2''"
  let ?c = "asc '', '' @ quoted ''url'' @ asc '': '' @ quoted ''/kit''"
  let ?items = "map Plain ?a @ [Nested ?b] @ map Plain ?c"
  let ?d = "quoted ''name'' @ asc '': '' @ quoted ''Duo'' @ asc '', '' @ quoted ''box'' @ asc '': ''"
  let ?e = "asc '', '' @ quoted ''lid'' @ asc '': ''"
  let ?twins = "map Plain ?d @ [Nested ?b] @ map Plain ?e @ [Nested []]"
  have obj: "kit_object = 0x7B # concat (map item_text ?items) @ [0x7D]"
    by (simp add: kit_object_def plain_items_text) (simp add: asc_def)
  have whole: "kit_text = asc ''See '' @ 0x7B # concat (map item_text ?items) @ 0x7D # asc ''!''"
    by (simp add: kit_text_def kit_object_def plain_items_text) (simp add: asc_def)
  have twin: "twin_object = 0x7B # concat (map item_text ?twins) @ [0x7D]"
    by (simp add: twin_object_def plain_items_text) (simp add: asc_def)
  have twin': "twin_object = [] @ 0x7B # concat (map item_text ?twins) @ 0x7D # []"
    using twin by simp
  have 1: "0x7B \<notin> set (asc ''See '')"
    by (simp add: asc_def)
  have 2: "list_all item_ok ?items"
    by (simp add: asc_def quoted_def brace_free_def)
  have 3: "JSON_parse (0x7B # concat (map item_text ?items) @ [0x7D]) =
      Inr (JObject [(asc ''name'', JString (asc ''Kit'')),
                    (asc ''box'', JObject [(asc ''size'', JNumber 2)]),
                    (asc ''url'', JString (asc ''/kit''))])"
    using kit_parse by (simp only: obj)
  have 4: "0x7B \<notin> set ([] :: jsstring)"
    by simp
  have 5: "list_all item_ok ?twins"
    by (simp add: asc_def quoted_def brace_free_def)
  have 6: "JSON_parse (0x7B # concat (map item_text ?twins) @ [0x7D]) =
      Inr (JObject [(asc ''name'', JString (asc ''Duo'')),
                    (asc ''box'', JObject [(asc ''size'', JNumber 2)]),
                    (asc ''lid'', JObject [])])"
    using twin_parse by (simp only: twin)
  have kit: "search jsonRegex kit_text = Some (kit_object, asc ''!'')
     \<and> (\<exists>p. extractProducts Greeting kit_text = Inr (Some [p]) \<and> name p = JString (asc ''Kit'')
          \<and> description p = JUndefined)"
    using nested_object_extracted [OF 1 2 3, where v = Greeting and post = "asc ''!''"]
    unfolding whole [symmetric] obj [symmetric]
    by (auto simp: asc_def)
  have duo: "search jsonRegex twin_object = Some (twin_object, [])
     \<and> (\<exists>p. extractProducts Greeting twin_object = Inr (Some [p]) \<and> name p = JString (asc ''Duo''))"
    using nested_object_extracted [OF 4 5 6, where v = Greeting and post = "[]"]
    unfolding twin' [symmetric] twin [symmetric]
    by (auto simp: asc_def)
  from kit duo show ?thesis by blast
qed

text \<open>
  C9: when the first match parses as a JSON object, \<open>extractProducts\<close> returns one
  product, also when the object lacks a \<open>name\<close> or a \<open>description\<close>: the field is then
  \<open>undefined\<close>, it gets no default, and the result is not \<open>null\<close>. The text \<open>{}\<close> is
  an example.
\<close>

theorem missing_name_undefined:
  assumes "search jsonRegex text = Some (m, after)" "JSON_parse m = Inr (JObject kvs)"
  shows "\<exists>p. extractProducts v text = Inr (Some [p])
    \<and> (own_prop kvs (asc ''name'') = None \<longrightarrow> name p = JUndefined)
    \<and> (own_prop kvs (asc ''description'') = None \<longrightarrow> description p = JUndefined)"
  using extract_object [OF assms, of v] by simp

theorem missing_name_undefined_witness:
  "own_prop [] (asc ''name'') = None \<and> own_prop [] (asc ''description'') = None
   \<and> extractProducts EmptyStart (asc ''{}'') = Inr (Some [empty_product EmptyStart])
   \<and> extractProducts Greeting (asc ''{}'') = Inr (Some [empty_product Greeting])"
proof -
  have "\<exists>p. extractProducts v (asc ''{}'') = Inr (Some [p])
      \<and> name p = JUndefined \<and> description p = JUndefined" for v
    using missing_name_undefined [OF empty_object_search empty_object_parse, of v]
    by (simp add: own_prop_def)
  moreover have "extractProducts v (asc ''{}'') = Inr (Some [empty_product v])" for v
    using extract_object [OF empty_object_search empty_object_parse, of v]
    by (simp add: own_prop_def js_or_def empty_product_def)
  ultimately show ?thesis
    by (simp add: own_prop_def)
qed

section \<open>The chat shell\<close>




text \<open>
  C7: a submission of an empty or blank text, and a submission while a request is in
  flight, change nothing: the conversation, the input buffer and the in-flight flag
  stay as they are, and no request is issued.
\<close>

theorem blank_submit_noop:
  assumes "list_all is_ws (input st) \<or> isLoading st"
  shows "handleSubmit fetch st = (Inr st, [])"
  using assms by (auto simp: handleSubmit_def trim_empty_iff)

theorem blank_submit_noop_witness:
  "list_all is_ws (input typed_blanks) \<and> isLoading typed_while_loading
   \<and> handleSubmit offline_fetch typed_blanks = (Inr typed_blanks, [])
   \<and> handleSubmit server_error_fetch typed_while_loading = (Inr typed_while_loading, [])
   \<and> handleSubmit offline_fetch (initial_state EmptyStart) = (Inr (initial_state EmptyStart), [])"
proof -
  have 1: "list_all is_ws (input typed_blanks)"
    by (simp add: typed_blanks_def asc_def is_ws_def)
  have 2: "isLoading typed_while_loading"
    by (simp add: typed_while_loading_def)
  have 3: "list_all is_ws (input (initial_state EmptyStart))"
    by simp
  from blank_submit_noop [of typed_blanks offline_fetch]
    blank_submit_noop [of typed_while_loading server_error_fetch]
    blank_submit_noop [of "initial_state EmptyStart" offline_fetch] 1 2 3
  show ?thesis by simp
qed

text \<open>
  C8: whatever the conversation holds, \<open>handleReset\<close> replaces it with the one the page
  started with, the empty one in one variant and the single greeting in the other, and
  leaves the rest of the state alone.
\<close>

theorem reset_restores_initial:
  "messages (handleReset v st) = messages (initial_state v)
   \<and> input (handleReset v st) = input st
   \<and> isLoading (handleReset v st) = isLoading st"
  by (cases v) (simp_all add: initial_greeting_def reset_greeting_def)

end
